theory Spec2Isabelle
  imports Complex_Main "HOL-Library.AList"
begin

section \<open>Intron and intergenic quantification (camparee/intron\_quant.py)\<close>

text \<open>
  A shallow embedding of \<^verbatim>\<open>IntronQuantificationStep.execute\<close>. Genomic coordinates
  and effective lengths are Python integers (\<open>int\<close>), raw counts are the values of a
  \<^verbatim>\<open>collections.Counter\<close> that is only ever incremented (\<open>nat\<close>), and the normalized
  counts, which the program holds as floats, are exact rationals (\<open>rat\<close>): rounding is
  abstracted, the sign and the order of the values are not. A dictionary whose items are
  iterated is an association list in insertion order; every exception the code can raise
  is a value of \<open>error\<close>.
\<close>

datatype error = AssertionError | KeyError | IndexError | ZeroDivisionError

subsection \<open>Locating a block among the sorted bins\<close>

text \<open>
  \<^verbatim>\<open>numpy.searchsorted(a, v, side="right")\<close> is a binary search for the insertion point
  to the right of every entry equal to \<open>v\<close>: the loop keeps \<open>lo \<le> hi\<close>, probes the
  middle and moves \<open>lo\<close> past it when the probed entry is at most \<open>v\<close>.
\<close>

function bisect_right :: "int list \<Rightarrow> int \<Rightarrow> nat \<Rightarrow> nat \<Rightarrow> nat" where
  "bisect_right a v lo hi =
     (if lo < hi
      then (if a ! (lo + (hi - lo) div 2) \<le> v
            then bisect_right a v (lo + (hi - lo) div 2 + 1) hi
            else bisect_right a v lo (lo + (hi - lo) div 2))
      else lo)"
  by pat_completeness auto
termination
  by (relation "measure (\<lambda>(a, v, lo, hi). hi - lo)") auto

declare bisect_right.simps [simp del]

definition searchsorted_right :: "int list \<Rightarrow> int \<Rightarrow> nat" where
  "searchsorted_right a v = bisect_right a v 0 (length a)"

text \<open>
  \<^verbatim>\<open>range(a, b)\<close> as the list of indices it yields; the code only calls it with
  \<open>0 \<le> a\<close>.
\<close>

definition py_range :: "int \<Rightarrow> int \<Rightarrow> nat list" where
  "py_range a b = [nat a..<nat b]"

text \<open>
  The per-block, per-axis case analysis of lines 110--127 (repeated verbatim for the
  antisense mintrons at 130--139 and the intergenic regions at 144--153). Reading
  \<^verbatim>\<open>ends[last_before]\<close> past the end of the array raises \<^verbatim>\<open>IndexError\<close>; the index is
  never negative there because \<^verbatim>\<open>last_before == -1\<close> is the first branch.
\<close>

definition block_touched :: "int list \<Rightarrow> int list \<Rightarrow> int \<Rightarrow> int \<Rightarrow> error + nat list" where
  "block_touched starts ends start end' =
     (let last_before = int (searchsorted_right starts start) - 1;
          first_after = int (searchsorted_right starts end')
      in if last_before = - 1 then Inr (py_range 0 first_after)
         else if nat last_before < length ends
         then (if ends ! nat last_before \<ge> start
               then Inr (py_range last_before first_after)
               else Inr (py_range (last_before + 1) first_after))
         else Inl IndexError)"

text \<open>
  The invariant of an axis (spec section 3): the two arrays have one entry per bin, every
  bin has \<open>start \<le> end\<close>, and each bin ends before the next one starts, so the starts
  are strictly increasing and no two bins share a coordinate.
\<close>

fun wf_bins :: "(int \<times> int) list \<Rightarrow> bool" where
  "wf_bins [] = True"
| "wf_bins [(s, e)] = (s \<le> e)"
| "wf_bins ((s, e) # (s', e') # bins) = (s \<le> e \<and> e < s' \<and> wf_bins ((s', e') # bins))"

definition wf_axis :: "int list \<Rightarrow> int list \<Rightarrow> bool" where
  "wf_axis starts ends = (length starts = length ends \<and> wf_bins (zip starts ends))"

text \<open>Two inclusive intervals intersect when they share a coordinate.\<close>

definition intersects :: "int \<times> int \<Rightarrow> int \<times> int \<Rightarrow> bool" where
  "intersects bin block = ({fst bin..snd bin} \<inter> {fst block..snd block} \<noteq> {})"

subsection \<open>The annotation index and the alignment records\<close>

text \<open>
  \<^verbatim>\<open>AnnotationInfo\<close> and its \<^verbatim>\<open>Intron\<close>, \<^verbatim>\<open>Mintron\<close> and \<^verbatim>\<open>Transcript\<close> objects are
  built outside this file; the quantifier only reads them. An intron or a mintron is
  its object identity, and each attribute the code reads is a function of that identity
  (an explicit store), so that an intron can list mintrons whose primary sets list
  introns. The three dictionaries with \<^verbatim>\<open>.get\<close> or subscript access are partial maps.
\<close>

type_synonym intron = nat
type_synonym mintron = nat
type_synonym chrom = string
type_synonym axis = "int list \<times> int list"

datatype strand = Plus | Minus

record transcript =
  transcript_id :: string
  introns :: "intron list"

record annotation_info =
  effective_length :: "intron \<Rightarrow> int"
  antisense_effective_length :: "intron \<Rightarrow> int"
  mintrons :: "intron \<Rightarrow> mintron list"
  antisense_mintrons :: "intron \<Rightarrow> mintron list"
  primary_introns :: "mintron \<Rightarrow> intron list"
  primary_antisense_introns :: "mintron \<Rightarrow> intron list"
  intergenics :: "chrom list"
  mintron_extents_by_chrom :: "chrom \<times> strand \<Rightarrow> axis option"
  intergenic_extents_by_chrom :: "chrom \<Rightarrow> axis option"
  mintrons_by_chrom :: "chrom \<times> strand \<Rightarrow> mintron list option"
  transcripts_by_chrom :: "(chrom \<times> transcript list) list"
  transcripts :: "(string \<times> transcript) list"

text \<open>
  A pysam alignment record, with the fields the loop reads. \<^verbatim>\<open>get_blocks()\<close> gives
  0-based, half-open \<open>(start, end)\<close> pairs; \<^verbatim>\<open>get_tag("NH")\<close> raises \<^verbatim>\<open>KeyError\<close> when
  the record carries no such tag.
\<close>

record read =
  query_name :: string
  is_unmapped :: bool
  is_proper_pair :: bool
  nh_tag :: "int option"
  reference_name :: chrom
  is_reverse :: bool
  is_read1 :: bool
  is_read2 :: bool
  get_blocks :: "(int \<times> int) list"

subsection \<open>Counters\<close>

text \<open>
  A \<^verbatim>\<open>collections.Counter\<close>: reading a missing key gives 0 and stores nothing; storing
  keeps the key's place or appends it.
\<close>

definition counter_get :: "('k \<times> 'v::zero) list \<Rightarrow> 'k \<Rightarrow> 'v" where
  "counter_get c k = (case map_of c k of None \<Rightarrow> 0 | Some v \<Rightarrow> v)"

definition counter_incr :: "('k \<times> nat) list \<Rightarrow> 'k \<Rightarrow> ('k \<times> nat) list" where
  "counter_incr c k = AList.update k (counter_get c k + 1) c"

record quant_state =
  unpaired_reads :: "string \<Rightarrow> read option"
  skipped_chromosomes :: "chrom list"
  intron_read_counts :: "(intron \<times> nat) list"
  intron_antisense_read_counts :: "(intron \<times> nat) list"
  intergenic_read_counts :: "(chrom \<times> (nat \<times> nat) list) list"

subsection \<open>FragmentAssembler: strand of a mate pair\<close>

definition read1_reverse_aligned :: "read \<Rightarrow> bool" where
  "read1_reverse_aligned r =
     ((is_reverse r \<and> is_read1 r) \<or> (\<not> is_reverse r \<and> is_read2 r))"

definition fragment_strand :: "bool \<Rightarrow> read \<Rightarrow> strand" where
  "fragment_strand forward_read_is_sense r =
     (if forward_read_is_sense
      then (if read1_reverse_aligned r then Minus else Plus)
      else (if read1_reverse_aligned r then Plus else Minus))"

definition antisense_of :: "strand \<Rightarrow> strand" where
  "antisense_of s = (if s = Plus then Minus else Plus)"

subsection \<open>IntervalOverlapResolver: the touched sets of a fragment\<close>

text \<open>
  A touched set is a Python \<^verbatim>\<open>set\<close> of indices, kept here as a list without
  repetition; \<^verbatim>\<open>update(range(...))\<close> inserts what is new. An axis that
  \<^verbatim>\<open>.get(..., [None, None])\<close> did not find is \<open>None\<close> and is skipped.
\<close>

definition touch_axis :: "axis option \<Rightarrow> int \<Rightarrow> int \<Rightarrow> nat list \<Rightarrow> error + nat list" where
  "touch_axis ax start end' touched =
     (case ax of
        None \<Rightarrow> Inr touched
      | Some (starts, ends) \<Rightarrow>
          (case block_touched starts ends start end' of
             Inl e \<Rightarrow> Inl e
           | Inr r \<Rightarrow> Inr (List.union r touched)))"

fun resolve_blocks ::
  "axis option \<Rightarrow> axis option \<Rightarrow> axis option \<Rightarrow> (int \<times> int) list \<Rightarrow>
   nat list \<times> nat list \<times> nat list \<Rightarrow> error + (nat list \<times> nat list \<times> nat list)" where
  "resolve_blocks sense anti intergenic [] acc = Inr acc"
| "resolve_blocks sense anti intergenic ((start0, end') # blocks) (mt, amt, it) =
     (case touch_axis sense (start0 + 1) end' mt of
        Inl e \<Rightarrow> Inl e
      | Inr mt' \<Rightarrow>
          (case touch_axis anti (start0 + 1) end' amt of
             Inl e \<Rightarrow> Inl e
           | Inr amt' \<Rightarrow>
               (case touch_axis intergenic (start0 + 1) end' it of
                  Inl e \<Rightarrow> Inl e
                | Inr it' \<Rightarrow> resolve_blocks sense anti intergenic blocks (mt', amt', it'))))"

subsection \<open>RawCountAccumulator\<close>

text \<open>
  \<^verbatim>\<open>self.info.mintrons_by_chrom[chrom, strand][mintron_index]\<close>: a missing key raises
  \<^verbatim>\<open>KeyError\<close>, an index past the list \<^verbatim>\<open>IndexError\<close>. The subscript is evaluated in
  the loop body, so never for an empty touched set.
\<close>

definition mintron_at :: "annotation_info \<Rightarrow> chrom \<times> strand \<Rightarrow> nat \<Rightarrow> error + mintron" where
  "mintron_at info key idx =
     (case mintrons_by_chrom info key of
        None \<Rightarrow> Inl KeyError
      | Some ms \<Rightarrow> if idx < length ms then Inr (ms ! idx) else Inl IndexError)"

fun accumulate ::
  "(nat \<Rightarrow> error + intron list) \<Rightarrow> nat list \<Rightarrow> (intron \<times> nat) list \<Rightarrow>
   error + (intron \<times> nat) list" where
  "accumulate primaries [] counts = Inr counts"
| "accumulate primaries (idx # touched) counts =
     (case primaries idx of
        Inl e \<Rightarrow> Inl e
      | Inr ps \<Rightarrow> accumulate primaries touched (fold (\<lambda>i c. counter_incr c i) ps counts))"

definition sense_primaries :: "annotation_info \<Rightarrow> chrom \<times> strand \<Rightarrow> nat \<Rightarrow> error + intron list" where
  "sense_primaries info key idx =
     (case mintron_at info key idx of Inl e \<Rightarrow> Inl e | Inr m \<Rightarrow> Inr (primary_introns info m))"

definition antisense_primaries :: "annotation_info \<Rightarrow> chrom \<times> strand \<Rightarrow> nat \<Rightarrow> error + intron list" where
  "antisense_primaries info key idx =
     (case mintron_at info key idx of
        Inl e \<Rightarrow> Inl e
      | Inr m \<Rightarrow> Inr (primary_antisense_introns info m))"

text \<open>\<^verbatim>\<open>self.intergenic_read_counts\<close> is a \<^verbatim>\<open>defaultdict(Counter)\<close>.\<close>

definition accumulate_intergenic ::
  "chrom \<Rightarrow> nat list \<Rightarrow> (chrom \<times> (nat \<times> nat) list) list \<Rightarrow> (chrom \<times> (nat \<times> nat) list) list" where
  "accumulate_intergenic chrom touched tbl =
     fold (\<lambda>idx t. AList.update chrom
                     (counter_incr (case map_of t chrom of None \<Rightarrow> [] | Some c \<Rightarrow> c) idx) t)
          touched tbl"

definition count_fragment ::
  "annotation_info \<Rightarrow> chrom \<Rightarrow> strand \<Rightarrow> read \<Rightarrow> read \<Rightarrow> quant_state \<Rightarrow> error + quant_state" where
  "count_fragment info chrom strand rd mate st =
     (case resolve_blocks (mintron_extents_by_chrom info (chrom, strand))
                          (mintron_extents_by_chrom info (chrom, antisense_of strand))
                          (intergenic_extents_by_chrom info chrom)
                          (get_blocks rd @ get_blocks mate) ([], [], []) of
        Inl e \<Rightarrow> Inl e
      | Inr (mintrons_touched, antisense_mintrons_touched, intergenics_touched) \<Rightarrow>
          (case accumulate (sense_primaries info (chrom, strand)) mintrons_touched
                           (intron_read_counts st) of
             Inl e \<Rightarrow> Inl e
           | Inr counts \<Rightarrow>
               (case accumulate (antisense_primaries info (chrom, antisense_of strand))
                                antisense_mintrons_touched
                                (intron_antisense_read_counts st) of
                  Inl e \<Rightarrow> Inl e
                | Inr antisense_counts \<Rightarrow>
                    Inr (st\<lparr>intron_read_counts := counts,
                            intron_antisense_read_counts := antisense_counts,
                            intergenic_read_counts :=
                              accumulate_intergenic chrom intergenics_touched
                                (intergenic_read_counts st)\<rparr>))))"

text \<open>
  The body of the loop once \<open>rd\<close> has met its cached \<open>mate\<close> (lines 73--165): a pair on a
  chromosome without annotation is skipped before the orientation assertion is reached.
\<close>

definition process_fragment ::
  "annotation_info \<Rightarrow> bool \<Rightarrow> read \<Rightarrow> read \<Rightarrow> quant_state \<Rightarrow> error + quant_state" where
  "process_fragment info forward_read_is_sense rd mate st =
     (if reference_name rd \<notin> set (intergenics info)
      then Inr (if reference_name rd \<notin> set (skipped_chromosomes st)
                then st\<lparr>skipped_chromosomes := skipped_chromosomes st @ [reference_name rd]\<rparr>
                else st)
      else if is_reverse rd = is_reverse mate then Inl AssertionError
      else count_fragment info (reference_name rd)
             (fragment_strand forward_read_is_sense rd) rd mate st)"

text \<open>The filter of line 59; \<^verbatim>\<open>or\<close> short-circuits, so the tag is read last.\<close>

definition retained :: "read \<Rightarrow> error + bool" where
  "retained r =
     (if is_unmapped r \<or> \<not> is_proper_pair r then Inr False
      else (case nh_tag r of None \<Rightarrow> Inl KeyError | Some n \<Rightarrow> Inr (n = 1)))"

definition process_read ::
  "annotation_info \<Rightarrow> bool \<Rightarrow> read \<Rightarrow> quant_state \<Rightarrow> error + quant_state" where
  "process_read info forward_read_is_sense rd st =
     (case retained rd of
        Inl e \<Rightarrow> Inl e
      | Inr False \<Rightarrow> Inr st
      | Inr True \<Rightarrow>
          (case unpaired_reads st (query_name rd) of
             None \<Rightarrow> Inr (st\<lparr>unpaired_reads := (unpaired_reads st)(query_name rd \<mapsto> rd)\<rparr>)
           | Some mate \<Rightarrow>
               process_fragment info forward_read_is_sense rd mate
                 (st\<lparr>unpaired_reads := (unpaired_reads st)(query_name rd := None)\<rparr>)))"

fun count_reads ::
  "annotation_info \<Rightarrow> bool \<Rightarrow> read list \<Rightarrow> quant_state \<Rightarrow> error + quant_state" where
  "count_reads info forward_read_is_sense [] st = Inr st"
| "count_reads info forward_read_is_sense (rd # rds) st =
     (case process_read info forward_read_is_sense rd st of
        Inl e \<Rightarrow> Inl e
      | Inr st' \<Rightarrow> count_reads info forward_read_is_sense rds st')"

definition initial_state :: quant_state where
  "initial_state = \<lparr>unpaired_reads = Map.empty, skipped_chromosomes = [],
                    intron_read_counts = [], intron_antisense_read_counts = [],
                    intergenic_read_counts = []\<rparr>"

subsection \<open>Normalizer\<close>

text \<open>
  Lines 169--176. The loop runs over the items of the raw sense table; the antisense
  count of the same intron is read inside it. Dividing by an effective length of 0
  raises \<^verbatim>\<open>ZeroDivisionError\<close>.
\<close>

definition fpk :: "nat \<Rightarrow> int \<Rightarrow> error + rat" where
  "fpk count len =
     (if len = 0 then Inl ZeroDivisionError else Inr (of_nat count / of_int len * 1000))"

fun normalize_counts ::
  "annotation_info \<Rightarrow> (intron \<times> nat) list \<Rightarrow> (intron \<times> nat) list \<Rightarrow>
   (intron \<times> rat) list \<times> (intron \<times> rat) list \<Rightarrow>
   error + ((intron \<times> rat) list \<times> (intron \<times> rat) list)" where
  "normalize_counts info [] antisense_raw tables = Inr tables"
| "normalize_counts info ((intron, count) # items) antisense_raw (normalized, antisense_normalized) =
     (case fpk count (effective_length info intron) of
        Inl e \<Rightarrow> Inl e
      | Inr effective_count \<Rightarrow>
          (if counter_get antisense_raw intron > 0
           then (case fpk (counter_get antisense_raw intron)
                          (antisense_effective_length info intron) of
                   Inl e \<Rightarrow> Inl e
                 | Inr antisense_count \<Rightarrow>
                     normalize_counts info items antisense_raw
                       (AList.update intron effective_count normalized,
                        AList.update intron antisense_count antisense_normalized))
           else normalize_counts info items antisense_raw
                  (AList.update intron effective_count normalized, antisense_normalized)))"

subsection \<open>DoubleCountCorrector\<close>

text \<open>
  Lines 182--203. \<open>remove_from_primaries\<close> is the innermost loop over
  \<^verbatim>\<open>other_intron\<close>, with the stored value \<^verbatim>\<open>min(other_counts - count, 0)\<close> as written;
  \<open>correct_mintrons\<close> is the loop over the mintrons of the intron, which skips a mintron
  the intron is primary for. Both are used for the sense pass and for the antisense pass.
  The antisense pass reads its \<^verbatim>\<open>antisense_count\<close> from
  \<^verbatim>\<open>self.intron_normalized_counts\<close> (line 197), and is not reached when the sense count
  is 0 (line 186).
\<close>

definition remove_from_primaries ::
  "rat \<Rightarrow> intron list \<Rightarrow> (intron \<times> rat) list \<Rightarrow> (intron \<times> rat) list" where
  "remove_from_primaries count primaries table =
     fold (\<lambda>other_intron t.
             AList.update other_intron (min (counter_get t other_intron - count) 0) t)
          primaries table"

definition correct_mintrons ::
  "(mintron \<Rightarrow> intron list) \<Rightarrow> intron \<Rightarrow> rat \<Rightarrow> mintron list \<Rightarrow>
   (intron \<times> rat) list \<Rightarrow> (intron \<times> rat) list" where
  "correct_mintrons primaries_of intron count ms table =
     fold (\<lambda>m t. if intron \<notin> set (primaries_of m)
                  then remove_from_primaries count (primaries_of m) t
                  else t)
          ms table"

definition correct_intron ::
  "annotation_info \<Rightarrow> intron \<Rightarrow> (intron \<times> rat) list \<times> (intron \<times> rat) list \<Rightarrow>
   (intron \<times> rat) list \<times> (intron \<times> rat) list" where
  "correct_intron info intron tables =
     (case tables of (normalized, antisense_normalized) \<Rightarrow>
        if counter_get normalized intron = 0 then (normalized, antisense_normalized)
        else
          (let normalized' =
                 correct_mintrons (primary_introns info) intron
                   (counter_get normalized intron) (mintrons info intron) normalized;
               antisense_count = counter_get normalized' intron
           in (normalized',
               correct_mintrons (primary_antisense_introns info) intron antisense_count
                 (antisense_mintrons info intron) antisense_normalized)))"

definition correct_double_counts ::
  "annotation_info \<Rightarrow> (intron \<times> rat) list \<times> (intron \<times> rat) list \<Rightarrow>
   (intron \<times> rat) list \<times> (intron \<times> rat) list" where
  "correct_double_counts info tables =
     fold (\<lambda>(contig, ts) tbl.
             fold (\<lambda>t tbl'. fold (correct_intron info) (introns t) tbl') ts tbl)
          (transcripts_by_chrom info) tables"

subsection \<open>TranscriptAggregator\<close>

text \<open>
  Lines 205--227. \<^verbatim>\<open>transcript.introns[1:-1]\<close> drops the first and the last intron and
  is empty for a list of at most two. Both sums are weighted by the sense effective
  length.
\<close>

definition non_flank_introns :: "transcript \<Rightarrow> intron list" where
  "non_flank_introns t = butlast (tl (introns t))"

definition transcript_sums ::
  "annotation_info \<Rightarrow> (intron \<times> rat) list \<Rightarrow> (intron \<times> rat) list \<Rightarrow> intron list \<Rightarrow>
   rat \<times> rat \<times> int" where
  "transcript_sums info normalized antisense_normalized non_flank =
     fold (\<lambda>intron (sense_counts, antisense_counts, total_length).
             (sense_counts + counter_get normalized intron * of_int (effective_length info intron),
              antisense_counts +
                counter_get antisense_normalized intron * of_int (effective_length info intron),
              total_length + effective_length info intron))
          non_flank (0, 0, 0)"

definition transcript_rates ::
  "annotation_info \<Rightarrow> (intron \<times> rat) list \<Rightarrow> (intron \<times> rat) list \<Rightarrow> transcript \<Rightarrow>
   rat \<times> rat" where
  "transcript_rates info normalized antisense_normalized t =
     (case transcript_sums info normalized antisense_normalized (non_flank_introns t) of
        (sense_counts, antisense_counts, total_length) \<Rightarrow>
          if total_length = 0 then (0, 0)
          else (sense_counts / of_int total_length, antisense_counts / of_int total_length))"

definition aggregate_transcripts ::
  "annotation_info \<Rightarrow> (intron \<times> rat) list \<Rightarrow> (intron \<times> rat) list \<Rightarrow>
   (string \<times> rat) list \<times> (string \<times> rat) list" where
  "aggregate_transcripts info normalized antisense_normalized =
     fold (\<lambda>(tid, t) (sense_tbl, antisense_tbl).
             (AList.update tid (fst (transcript_rates info normalized antisense_normalized t))
                sense_tbl,
              AList.update tid (snd (transcript_rates info normalized antisense_normalized t))
                antisense_tbl))
          (transcripts info) ([], [])"

subsection \<open>The whole step\<close>

record quantification =
  intron_normalized_counts :: "(intron \<times> rat) list"
  intron_normalized_antisense_counts :: "(intron \<times> rat) list"
  transcript_intron_counts :: "(string \<times> rat) list"
  transcript_intron_antisense_counts :: "(string \<times> rat) list"
  intergenic_counts :: "(chrom \<times> (nat \<times> nat) list) list"

definition execute :: "annotation_info \<Rightarrow> bool \<Rightarrow> read list \<Rightarrow> error + quantification" where
  "execute info forward_read_is_sense alignments =
     (case count_reads info forward_read_is_sense alignments initial_state of
        Inl e \<Rightarrow> Inl e
      | Inr st \<Rightarrow>
          (case normalize_counts info (intron_read_counts st) (intron_antisense_read_counts st)
                  ([], []) of
             Inl e \<Rightarrow> Inl e
           | Inr tables \<Rightarrow>
               (case correct_double_counts info tables of
                  (normalized, antisense_normalized) \<Rightarrow>
                    Inr \<lparr>intron_normalized_counts = normalized,
                         intron_normalized_antisense_counts = antisense_normalized,
                         transcript_intron_counts =
                           fst (aggregate_transcripts info normalized antisense_normalized),
                         transcript_intron_antisense_counts =
                           snd (aggregate_transcripts info normalized antisense_normalized),
                         intergenic_counts = intergenic_read_counts st\<rparr>)))"

subsection \<open>Vocabulary of the statements\<close>

text \<open>
  The block loop seen from one axis alone: \<open>resolve_blocks\<close> runs three of these side
  by side.
\<close>

fun touch_blocks :: "axis option \<Rightarrow> (int \<times> int) list \<Rightarrow> nat list \<Rightarrow> error + nat list" where
  "touch_blocks ax [] touched = Inr touched"
| "touch_blocks ax ((start0, end') # blocks) touched =
     (case touch_axis ax (start0 + 1) end' touched of
        Inl e \<Rightarrow> Inl e
      | Inr touched' \<Rightarrow> touch_blocks ax blocks touched')"

text \<open>
  The bins of an axis that some block of the fragment intersects; the blocks are pysam's
  0-based, half-open pairs, so a block covers the coordinates \<open>start0 + 1 .. end'\<close>.
\<close>

definition touched_bins :: "axis option \<Rightarrow> (int \<times> int) list \<Rightarrow> nat set" where
  "touched_bins ax blocks =
     (case ax of
        None \<Rightarrow> {}
      | Some (starts, ends) \<Rightarrow>
          {i. i < length starts \<and>
              (\<exists>(start0, end') \<in> set blocks.
                  intersects (starts ! i, ends ! i) (start0 + 1, end'))})"

text \<open>
  What the quantifier expects of the index: an axis that exists satisfies the invariant
  of its bins, and \<^verbatim>\<open>mintrons_by_chrom\<close> lists one mintron per bin of it.
\<close>

definition consistent_axis :: "axis option \<Rightarrow> mintron list option \<Rightarrow> bool" where
  "consistent_axis ax ms =
     (case ax of
        None \<Rightarrow> True
      | Some (starts, ends) \<Rightarrow>
          wf_axis starts ends \<and>
          (case ms of None \<Rightarrow> False | Some l \<Rightarrow> length l = length starts))"

definition wf_axis_option :: "axis option \<Rightarrow> bool" where
  "wf_axis_option ax = (case ax of None \<Rightarrow> True | Some (starts, ends) \<Rightarrow> wf_axis starts ends)"

text \<open>How often an intron occurs among the primary introns looked up for a mintron.\<close>

definition hits :: "error + intron list \<Rightarrow> intron \<Rightarrow> nat" where
  "hits primaries x = (case primaries of Inl e \<Rightarrow> 0 | Inr ps \<Rightarrow> count_list ps x)"

subsection \<open>A small annotation and two mate pairs\<close>

text \<open>
  Chromosome \<open>1\<close> with two plus-strand mintrons, \<open>[100, 200]\<close> and \<open>[300, 400]\<close>.
  Intron 0 is the primary intron of the first, intron 1 of the second; intron 1 also
  lies in the first mintron without being primary there. The effective length of
  intron 0 is a parameter. \<open>sense_pair\<close> is a fragment of the plus strand and
  \<open>antisense_pair\<close> one of the minus strand when the forward read is not sense; both
  touch both mintrons.
\<close>

definition paired_read :: "string \<Rightarrow> bool \<Rightarrow> bool \<Rightarrow> (int \<times> int) list \<Rightarrow> read" where
  "paired_read name reverse first blocks =
     \<lparr>query_name = name, is_unmapped = False, is_proper_pair = True, nh_tag = Some 1,
      reference_name = ''1'', is_reverse = reverse, is_read1 = first, is_read2 = (\<not> first),
      get_blocks = blocks\<rparr>"

definition overlap_info :: "int \<Rightarrow> annotation_info" where
  "overlap_info len0 =
     \<lparr>effective_length = (\<lambda>i. if i = 0 then len0 else 500),
      antisense_effective_length = (\<lambda>i. if i = 0 then 2000 else 1000),
      mintrons = (\<lambda>i. if i = 0 then [0] else [0, 1]),
      antisense_mintrons = (\<lambda>i. if i = 0 then [0] else [0, 1]),
      primary_introns = (\<lambda>m. if m = 0 then [0] else [1]),
      primary_antisense_introns = (\<lambda>m. if m = 0 then [0] else [1]),
      intergenics = [''1''],
      mintron_extents_by_chrom =
        (\<lambda>key. if key = (''1'', Plus) then Some ([100, 300], [200, 400]) else None),
      intergenic_extents_by_chrom =
        (\<lambda>c. if c = ''1'' then Some ([1, 201, 401], [99, 299, 1000]) else None),
      mintrons_by_chrom = (\<lambda>key. if key = (''1'', Plus) then Some [0, 1] else None),
      transcripts_by_chrom =
        [(''1'', [\<lparr>transcript_id = ''T0'', introns = [0]\<rparr>,
                  \<lparr>transcript_id = ''T1'', introns = [1]\<rparr>])],
      transcripts =
        [(''T0'', \<lparr>transcript_id = ''T0'', introns = [0]\<rparr>),
         (''T1'', \<lparr>transcript_id = ''T1'', introns = [1]\<rparr>)]\<rparr>"

definition sense_pair :: "read list" where
  "sense_pair = [paired_read ''f1'' False False [(149, 160)],
                 paired_read ''f1'' True True [(349, 360)]]"

definition antisense_pair :: "read list" where
  "antisense_pair = [paired_read ''f2'' False True [(149, 160)],
                     paired_read ''f2'' True False [(349, 360)]]"

text \<open>
  The same chromosome with an index in which nothing coincides by accident: the two
  plus-strand bins hold the mintrons 5 and 7, the sense-primary introns are \<open>[0]\<close> and
  \<open>[1, 0]\<close> (intron 0 is primary for both mintrons), and the antisense-primary introns
  are \<open>[2]\<close> and \<open>[3]\<close>.
\<close>

definition shifted_info :: annotation_info where
  "shifted_info =
     (overlap_info 1000)
       \<lparr>primary_introns := (\<lambda>m. if m = 5 then [0] else if m = 7 then [1, 0] else []),
        primary_antisense_introns := (\<lambda>m. if m = 5 then [2] else if m = 7 then [3] else [4]),
        mintrons_by_chrom := (\<lambda>key. if key = (''1'', Plus) then Some [5, 7] else None)\<rparr>"

section \<open>Properties\<close>

subsection \<open>The interval-overlap resolver\<close>

lemma bisect_right_bounds:
  assumes "sorted a" "lo \<le> hi" "hi \<le> length a"
    and "\<forall>i<lo. a ! i \<le> v"
    and "\<forall>i. hi \<le> i \<and> i < length a \<longrightarrow> v < a ! i"
  shows "bisect_right a v lo hi \<le> length a \<and>
         (\<forall>i<bisect_right a v lo hi. a ! i \<le> v) \<and>
         (\<forall>i. bisect_right a v lo hi \<le> i \<and> i < length a \<longrightarrow> v < a ! i)"
  using assms
proof (induction a v lo hi rule: bisect_right.induct)
  case (1 a v lo hi)
  let ?mid = "lo + (hi - lo) div 2"
  show ?case
  proof (cases "lo < hi")
    case False
    with "1.prems" have "lo = hi" by simp
    moreover have "bisect_right a v hi hi = hi" by (subst bisect_right.simps) simp
    ultimately show ?thesis using "1.prems" by simp
  next
    case lt: True
    then have mid: "lo \<le> ?mid" "?mid < hi" by auto
    show ?thesis
    proof (cases "a ! ?mid \<le> v")
      case le: True
      have low: "\<forall>i<?mid + 1. a ! i \<le> v"
      proof (intro allI impI)
        fix i assume "i < ?mid + 1"
        then have "i \<le> ?mid" by simp
        moreover have "?mid < length a" using mid "1.prems" by simp
        ultimately have "a ! i \<le> a ! ?mid" using \<open>sorted a\<close> by (simp add: sorted_nth_mono)
        with le show "a ! i \<le> v" by simp
      qed
      have "bisect_right a v lo hi = bisect_right a v (?mid + 1) hi"
        using lt le by (subst bisect_right.simps) simp
      moreover have "bisect_right a v (?mid + 1) hi \<le> length a \<and>
         (\<forall>i<bisect_right a v (?mid + 1) hi. a ! i \<le> v) \<and>
         (\<forall>i. bisect_right a v (?mid + 1) hi \<le> i \<and> i < length a \<longrightarrow> v < a ! i)"
        using "1.IH"(1)[OF lt le] "1.prems" mid low by simp
      ultimately show ?thesis by simp
    next
      case gt: False
      have high: "\<forall>i. ?mid \<le> i \<and> i < length a \<longrightarrow> v < a ! i"
      proof (intro allI impI)
        fix i assume "?mid \<le> i \<and> i < length a"
        then have "a ! ?mid \<le> a ! i" using \<open>sorted a\<close> by (simp add: sorted_nth_mono)
        with gt show "v < a ! i" by simp
      qed
      have "bisect_right a v lo hi = bisect_right a v lo ?mid"
        using lt gt by (subst bisect_right.simps) simp
      moreover have "bisect_right a v lo ?mid \<le> length a \<and>
         (\<forall>i<bisect_right a v lo ?mid. a ! i \<le> v) \<and>
         (\<forall>i. bisect_right a v lo ?mid \<le> i \<and> i < length a \<longrightarrow> v < a ! i)"
        using "1.IH"(2)[OF lt gt] "1.prems" mid high by simp
      ultimately show ?thesis by simp
    qed
  qed
qed

lemma searchsorted_right_iff:
  assumes "sorted a" "i < length a"
  shows "i < searchsorted_right a v \<longleftrightarrow> a ! i \<le> v"
proof -
  have "searchsorted_right a v \<le> length a \<and>
         (\<forall>i<searchsorted_right a v. a ! i \<le> v) \<and>
         (\<forall>i. searchsorted_right a v \<le> i \<and> i < length a \<longrightarrow> v < a ! i)"
    unfolding searchsorted_right_def
    by (rule bisect_right_bounds) (use assms in auto)
  with assms(2) show ?thesis by (metis not_le_imp_less not_less)
qed

lemma searchsorted_right_le: "sorted a \<Longrightarrow> searchsorted_right a v \<le> length a"
  unfolding searchsorted_right_def
  using bisect_right_bounds[of a 0 "length a" v] by simp

lemma wf_bins_nth:
  "wf_bins bins \<Longrightarrow> i < length bins \<Longrightarrow> fst (bins ! i) \<le> snd (bins ! i)"
proof (induction bins arbitrary: i rule: wf_bins.induct)
  case (3 s e s' e' bins)
  then show ?case by (cases i) auto
qed auto

lemma wf_bins_Suc:
  "wf_bins bins \<Longrightarrow> Suc i < length bins \<Longrightarrow> snd (bins ! i) < fst (bins ! Suc i)"
proof (induction bins arbitrary: i rule: wf_bins.induct)
  case (3 s e s' e' bins)
  then show ?case by (cases i) auto
qed auto

lemma wf_bins_less:
  assumes "wf_bins bins" "j < length bins" "i < j"
  shows "snd (bins ! i) < fst (bins ! j)"
  using assms(3,2)
proof (induction j)
  case 0
  then show ?case by simp
next
  case (Suc j)
  show ?case
  proof (cases "i = j")
    case True
    with Suc.prems assms(1) show ?thesis by (simp add: wf_bins_Suc)
  next
    case False
    with Suc.prems have "i < j" "j < length bins" by auto
    then have "snd (bins ! i) < fst (bins ! j)" by (rule Suc.IH)
    moreover have "fst (bins ! j) \<le> snd (bins ! j)"
      using assms(1) \<open>j < length bins\<close> by (rule wf_bins_nth)
    moreover have "snd (bins ! j) < fst (bins ! Suc j)"
      using assms(1) Suc.prems(2) by (rule wf_bins_Suc)
    ultimately show ?thesis by linarith
  qed
qed

lemma wf_axis_valid: "wf_axis starts ends \<Longrightarrow> i < length starts \<Longrightarrow> starts ! i \<le> ends ! i"
  using wf_bins_nth[of "zip starts ends" i] by (simp add: wf_axis_def)

lemma wf_axis_less:
  "wf_axis starts ends \<Longrightarrow> j < length starts \<Longrightarrow> i < j \<Longrightarrow> ends ! i < starts ! j"
  using wf_bins_less[of "zip starts ends" j i] by (simp add: wf_axis_def)

lemma wf_axis_sorted: "wf_axis starts ends \<Longrightarrow> sorted starts"
proof (rule sorted_iff_nth_mono_less[THEN iffD2], intro allI impI)
  fix i j assume wf: "wf_axis starts ends" and "i < j" and "j < length starts"
  then have "ends ! i < starts ! j" by (simp add: wf_axis_less)
  moreover have "starts ! i \<le> ends ! i" using wf \<open>i < j\<close> \<open>j < length starts\<close> by (simp add: wf_axis_valid)
  ultimately show "starts ! i \<le> starts ! j" by simp
qed

lemma intersects_iff:
  "s \<le> e \<Longrightarrow> bs \<le> be \<Longrightarrow> intersects (s, e) (bs, be) \<longleftrightarrow> s \<le> be \<and> bs \<le> e"
  by (auto simp: intersects_def)


lemma set_py_range: "set (py_range a b) = {i. nat a \<le> i \<and> i < nat b}"
  by (auto simp: py_range_def)

lemma intersects_bin_iff:
  assumes wf: "wf_axis starts ends" and blk: "start \<le> end'" and i: "i < length starts"
  shows "intersects (starts ! i, ends ! i) (start, end') \<longleftrightarrow>
         i < searchsorted_right starts end' \<and>
         (searchsorted_right starts start \<le> i \<or>
          (Suc i = searchsorted_right starts start \<and> start \<le> ends ! i))"
proof -
  let ?n = "searchsorted_right starts start"
  have srt: "sorted starts" using wf by (rule wf_axis_sorted)
  have valid: "starts ! i \<le> ends ! i" using wf i by (rule wf_axis_valid)
  have R: "i < searchsorted_right starts end' \<longleftrightarrow> starts ! i \<le> end'"
    using srt i by (rule searchsorted_right_iff)
  have N: "i < ?n \<longleftrightarrow> starts ! i \<le> start"
    using srt i by (rule searchsorted_right_iff)
  have inter: "intersects (starts ! i, ends ! i) (start, end') \<longleftrightarrow>
               starts ! i \<le> end' \<and> start \<le> ends ! i"
    using valid blk by (rule intersects_iff)
  consider (ge) "?n \<le> i" | (eq) "Suc i = ?n" | (lt) "Suc i < ?n"
    by linarith
  then show ?thesis
  proof cases
    case ge
    then have "start < starts ! i" using N by auto
    with valid have "start \<le> ends ! i" by simp
    with ge inter R show ?thesis by simp
  next
    case eq
    with inter R show ?thesis by auto
  next
    case lt
    have n_le: "?n \<le> length starts" using srt by (rule searchsorted_right_le)
    with lt have si: "Suc i < length starts" by simp
    have "Suc i < ?n \<longleftrightarrow> starts ! Suc i \<le> start"
      using srt si by (rule searchsorted_right_iff)
    with lt have "starts ! Suc i \<le> start" by simp
    moreover have "ends ! i < starts ! Suc i"
      using wf si by (simp add: wf_axis_less)
    ultimately have "\<not> start \<le> ends ! i" by simp
    with lt inter show ?thesis by auto
  qed
qed

text \<open>
  Claim C4. For a block \<open>[start, end']\<close> (1-based, inclusive, \<open>start \<le> end'\<close>) and an
  axis whose bins are strictly start-sorted and mutually non-overlapping, the case analysis
  on \<open>L\<close> (the rightmost bin starting at or before the block start) and \<open>R\<close> (the first
  bin starting after the block end) raises nothing and returns, without repetition,
  exactly the indices of the bins whose interval intersects the block.
\<close>

theorem block_touched_exact:
  assumes wf: "wf_axis starts ends" and blk: "start \<le> end'"
  shows "\<exists>r. block_touched starts ends start end' = Inr r \<and> distinct r \<and>
             set r = {i. i < length starts \<and>
                         intersects (starts ! i, ends ! i) (start, end')}"
proof -
  let ?n = "searchsorted_right starts start"
  let ?R = "searchsorted_right starts end'"
  have srt: "sorted starts" using wf by (rule wf_axis_sorted)
  have n_le: "?n \<le> length starts" using srt by (rule searchsorted_right_le)
  have R_le: "?R \<le> length starts" using srt by (rule searchsorted_right_le)
  have len: "length ends = length starts" using wf by (simp add: wf_axis_def)
  have char: "\<And>i. i < length starts \<Longrightarrow>
      intersects (starts ! i, ends ! i) (start, end') \<longleftrightarrow>
      i < ?R \<and> (?n \<le> i \<or> (Suc i = ?n \<and> start \<le> ends ! i))"
    using wf blk by (rule intersects_bin_iff)
  show ?thesis
  proof (cases "?n = 0")
    case True
    then have res: "block_touched starts ends start end' = Inr (py_range 0 (int ?R))"
      by (simp add: block_touched_def)
    have "set (py_range 0 (int ?R)) =
          {i. i < length starts \<and> intersects (starts ! i, ends ! i) (start, end')}"
      using True R_le char by (auto simp: set_py_range)
    with res show ?thesis by (simp add: py_range_def)
  next
    case False
    then have pos: "0 < ?n" by simp
    then have idx: "nat (int ?n - 1) = ?n - 1" "?n - 1 < length ends"
      using n_le len by auto
    show ?thesis
    proof (cases "start \<le> ends ! (?n - 1)")
      case True
      then have res: "block_touched starts ends start end' =
                      Inr (py_range (int ?n - 1) (int ?R))"
        using pos idx by (simp add: block_touched_def Let_def)
      have "set (py_range (int ?n - 1) (int ?R)) =
            {i. i < length starts \<and> intersects (starts ! i, ends ! i) (start, end')}"
      proof (intro set_eqI iffI)
        fix i assume "i \<in> set (py_range (int ?n - 1) (int ?R))"
        then have a: "?n - 1 \<le> i" "i < ?R" using idx by (auto simp: set_py_range)
        then have il: "i < length starts" using R_le by simp
        have "?n \<le> i \<or> (Suc i = ?n \<and> start \<le> ends ! i)"
        proof (cases "?n \<le> i")
          case False
          with a pos have "Suc i = ?n" by simp
          moreover from this have "?n - 1 = i" by linarith
          ultimately show ?thesis using True by simp
        qed simp
        with a il show "i \<in> {i. i < length starts \<and>
                          intersects (starts ! i, ends ! i) (start, end')}"
          by (simp add: char)
      next
        fix i assume "i \<in> {i. i < length starts \<and>
                          intersects (starts ! i, ends ! i) (start, end')}"
        then have "i < ?R" "?n \<le> i \<or> Suc i = ?n" by (auto simp: char)
        then show "i \<in> set (py_range (int ?n - 1) (int ?R))"
          using idx by (auto simp: set_py_range)
      qed
      with res show ?thesis by (simp add: py_range_def)
    next
      case False
      then have res: "block_touched starts ends start end' =
                      Inr (py_range (int ?n - 1 + 1) (int ?R))"
        using pos idx by (simp add: block_touched_def Let_def)
      have "set (py_range (int ?n - 1 + 1) (int ?R)) =
            {i. i < length starts \<and> intersects (starts ! i, ends ! i) (start, end')}"
      proof (intro set_eqI iffI)
        fix i assume "i \<in> set (py_range (int ?n - 1 + 1) (int ?R))"
        then have a: "?n \<le> i" "i < ?R" by (auto simp: set_py_range)
        then have il: "i < length starts" using R_le by simp
        with a show "i \<in> {i. i < length starts \<and>
                          intersects (starts ! i, ends ! i) (start, end')}"
          by (simp add: char)
      next
        fix i assume "i \<in> {i. i < length starts \<and>
                          intersects (starts ! i, ends ! i) (start, end')}"
        then have "i < ?R" "?n \<le> i \<or> (Suc i = ?n \<and> start \<le> ends ! i)"
          by (auto simp: char)
        moreover have "\<not> (Suc i = ?n \<and> start \<le> ends ! i)"
        proof
          assume h: "Suc i = ?n \<and> start \<le> ends ! i"
          then have "?n - 1 = i" by linarith
          with h False show False by simp
        qed
        ultimately show "i \<in> set (py_range (int ?n - 1 + 1) (int ?R))"
          by (auto simp: set_py_range)
      qed
      with res show ?thesis by (simp add: py_range_def)
    qed
  qed
qed

theorem block_touched_exact_witness:
  "wf_axis [100, 300, 500] [200, 400, 600] \<and> (150::int) \<le> 350 \<and>
   block_touched [100, 300, 500] [200, 400, 600] 150 350 = Inr [0, 1] \<and>
   {i. i < length [100, 300, 500 :: int] \<and>
       intersects ([100, 300, 500] ! i, [200, 400, 600] ! i) (150, 350)} = set [0, 1 :: nat]"
proof -
  have wf: "wf_axis [100, 300, 500] [200, 400, 600]"
    by (simp add: wf_axis_def)
  have blk: "(150::int) \<le> 350" by simp
  have run: "block_touched [100, 300, 500] [200, 400, 600] 150 350 = Inr [0, 1]"
    by code_simp
  from block_touched_exact [OF wf blk] run
  have "set [0, 1 :: nat] = {i. i < length [100, 300, 500 :: int] \<and>
       intersects ([100, 300, 500] ! i, [200, 400, 600] ! i) (150, 350)}"
    by auto
  with wf blk run show ?thesis by simp
qed

subsection \<open>The orientation assertion\<close>

lemma touch_axis_error: "touch_axis ax s e t = Inl err \<Longrightarrow> err = IndexError"
  by (auto simp: touch_axis_def block_touched_def Let_def split: option.splits sum.splits if_splits)

lemma resolve_blocks_error:
  "resolve_blocks sense anti intergenic blocks acc = Inl err \<Longrightarrow> err = IndexError"
proof (induction sense anti intergenic blocks acc rule: resolve_blocks.induct)
  case (1 sense anti intergenic acc)
  then show ?case by simp
next
  case (2 sense anti intergenic start0 end' blocks mt amt it)
  then show ?case
    by (auto split: sum.splits dest: touch_axis_error)
qed

lemma mintron_at_error: "mintron_at info key idx = Inl err \<Longrightarrow> err \<noteq> AssertionError"
  by (auto simp: mintron_at_def split: option.splits if_splits)

lemma accumulate_error:
  assumes "\<And>idx err. primaries idx = Inl err \<Longrightarrow> err \<noteq> AssertionError"
  shows "accumulate primaries touched counts = Inl err \<Longrightarrow> err \<noteq> AssertionError"
proof (induction touched arbitrary: counts)
  case Nil
  then show ?case by simp
next
  case (Cons idx touched)
  then show ?case using assms by (auto split: sum.splits)
qed

lemma accumulate_sense_error:
  "accumulate (sense_primaries info key) touched counts \<noteq> Inl AssertionError"
proof
  assume a: "accumulate (sense_primaries info key) touched counts = Inl AssertionError"
  have "\<And>idx err. sense_primaries info key idx = Inl err \<Longrightarrow> err \<noteq> AssertionError"
    by (auto simp: sense_primaries_def split: sum.splits dest: mintron_at_error)
  from accumulate_error[OF this a] show False by simp
qed

lemma accumulate_antisense_error:
  "accumulate (antisense_primaries info key) touched counts \<noteq> Inl AssertionError"
proof
  assume a: "accumulate (antisense_primaries info key) touched counts = Inl AssertionError"
  have "\<And>idx err. antisense_primaries info key idx = Inl err \<Longrightarrow> err \<noteq> AssertionError"
    by (auto simp: antisense_primaries_def split: sum.splits dest: mintron_at_error)
  from accumulate_error[OF this a] show False by simp
qed

lemma count_fragment_no_assertion:
  "count_fragment info chrom strand rd mate st \<noteq> Inl AssertionError"
  unfolding count_fragment_def
  by (auto split: sum.splits prod.splits
           simp: accumulate_sense_error accumulate_antisense_error
           dest: resolve_blocks_error)

text \<open>
  Claim C8, as amended. A retained read (it passes the filter of line 59) that meets its
  cached mate on a chromosome with annotation aborts the run with the assertion error when
  both records carry the same reverse-strand flag; when the flags differ the assertion
  passes, the pair is counted with the strand resolved from the read, and whatever the
  counting returns, it is not the assertion error. On a chromosome without annotation
  the pair is dropped before the assertion is reached (lines 75--79): nothing is raised,
  whatever the flags, and the chromosome is recorded as skipped once.
\<close>

theorem orientation_assertion:
  assumes "retained rd = Inr True"
    and "unpaired_reads st (query_name rd) = Some mate"
  shows "(reference_name rd \<in> set (intergenics info) \<and> is_reverse rd = is_reverse mate \<longrightarrow>
            process_read info fwd rd st = Inl AssertionError) \<and>
         (reference_name rd \<in> set (intergenics info) \<and> is_reverse rd \<noteq> is_reverse mate \<longrightarrow>
            process_read info fwd rd st \<noteq> Inl AssertionError \<and>
            process_read info fwd rd st =
              count_fragment info (reference_name rd) (fragment_strand fwd rd) rd mate
                (st\<lparr>unpaired_reads := (unpaired_reads st)(query_name rd := None)\<rparr>)) \<and>
         (reference_name rd \<notin> set (intergenics info) \<longrightarrow>
            process_read info fwd rd st =
              Inr (st\<lparr>unpaired_reads := (unpaired_reads st)(query_name rd := None),
                      skipped_chromosomes :=
                        (if reference_name rd \<in> set (skipped_chromosomes st)
                         then skipped_chromosomes st
                         else skipped_chromosomes st @ [reference_name rd])\<rparr>))"
  using assms count_fragment_no_assertion
  by (simp add: process_read_def process_fragment_def)

theorem orientation_assertion_witness:
  "retained (paired_read ''f1'' True True [(349, 360)]) = Inr True \<and>
   unpaired_reads
     (initial_state\<lparr>unpaired_reads := [''f1'' \<mapsto> paired_read ''f1'' True False [(149, 160)]]\<rparr>)
     (query_name (paired_read ''f1'' True True [(349, 360)])) =
     Some (paired_read ''f1'' True False [(149, 160)]) \<and>
   reference_name (paired_read ''f1'' True True [(349, 360)]) \<in>
     set (intergenics (overlap_info 1000)) \<and>
   is_reverse (paired_read ''f1'' True True [(349, 360)]) =
     is_reverse (paired_read ''f1'' True False [(149, 160)]) \<and>
   process_read (overlap_info 1000) False (paired_read ''f1'' True True [(349, 360)])
     (initial_state\<lparr>unpaired_reads := [''f1'' \<mapsto> paired_read ''f1'' True False [(149, 160)]]\<rparr>) =
     Inl AssertionError"
proof -
  let ?rd = "paired_read ''f1'' True True [(349, 360)]"
  let ?mate = "paired_read ''f1'' True False [(149, 160)]"
  let ?st = "initial_state\<lparr>unpaired_reads := [''f1'' \<mapsto> ?mate]\<rparr>"
  have r: "retained ?rd = Inr True"
    by (simp add: retained_def paired_read_def)
  have u: "unpaired_reads ?st (query_name ?rd) = Some ?mate"
    by (simp add: paired_read_def)
  have c: "reference_name ?rd \<in> set (intergenics (overlap_info 1000))"
    by (simp add: paired_read_def overlap_info_def)
  have same: "is_reverse ?rd = is_reverse ?mate"
    by (simp add: paired_read_def)
  from orientation_assertion [OF r u, of "overlap_info 1000" False] c same
  have "process_read (overlap_info 1000) False ?rd ?st = Inl AssertionError"
    by blast
  with r u c same show ?thesis by blast
qed

text \<open>
  Claim C8 as stated fails on a chromosome without annotation: the pair below passes the
  filter, both records are reverse, and the run goes on with \<open>chrUn\<close> recorded as
  skipped.
\<close>

theorem unannotated_pair_raises_nothing:
  "retained ((paired_read ''f1'' True True [(349, 360)])\<lparr>reference_name := ''chrUn''\<rparr>) = Inr True \<and>
   unpaired_reads
     (initial_state\<lparr>unpaired_reads :=
        [''f1'' \<mapsto> (paired_read ''f1'' True False [(149, 160)])\<lparr>reference_name := ''chrUn''\<rparr>]\<rparr>)
     ''f1'' =
     Some ((paired_read ''f1'' True False [(149, 160)])\<lparr>reference_name := ''chrUn''\<rparr>) \<and>
   is_reverse ((paired_read ''f1'' True True [(349, 360)])\<lparr>reference_name := ''chrUn''\<rparr>) =
     is_reverse ((paired_read ''f1'' True False [(149, 160)])\<lparr>reference_name := ''chrUn''\<rparr>) \<and>
   process_read (overlap_info 1000) False
     ((paired_read ''f1'' True True [(349, 360)])\<lparr>reference_name := ''chrUn''\<rparr>)
     (initial_state\<lparr>unpaired_reads :=
        [''f1'' \<mapsto> (paired_read ''f1'' True False [(149, 160)])\<lparr>reference_name := ''chrUn''\<rparr>]\<rparr>)
     \<noteq> Inl AssertionError \<and>
   map_sum id skipped_chromosomes
     (process_read (overlap_info 1000) False
        ((paired_read ''f1'' True True [(349, 360)])\<lparr>reference_name := ''chrUn''\<rparr>)
        (initial_state\<lparr>unpaired_reads :=
           [''f1'' \<mapsto> (paired_read ''f1'' True False [(149, 160)])\<lparr>reference_name := ''chrUn''\<rparr>]\<rparr>))
     = Inr [''chrUn'']"
  by (simp add: process_read_def process_fragment_def retained_def paired_read_def
                overlap_info_def initial_state_def)

subsection \<open>Strand resolution and the order of arrival\<close>

lemma pair_either_order:
  assumes ra: "retained a = Inr True" and rb: "retained b = Inr True"
    and q: "query_name a = query_name b"
    and fresh: "unpaired_reads st (query_name a) = None"
    and ca: "reference_name a \<in> set (intergenics info)"
    and cb: "reference_name b \<in> set (intergenics info)"
    and rev: "is_reverse a \<noteq> is_reverse b"
  shows "count_reads info fwd [a, b] st =
           count_fragment info (reference_name b) (fragment_strand fwd b) b a st"
    and "count_reads info fwd [b, a] st =
           count_fragment info (reference_name a) (fragment_strand fwd a) a b st"
proof -
  have upd: "\<And>r. ((unpaired_reads st)(query_name a \<mapsto> r))(query_name a := None) = unpaired_reads st"
    using fresh by (auto simp: fun_eq_iff)
  show "count_reads info fwd [a, b] st =
           count_fragment info (reference_name b) (fragment_strand fwd b) b a st"
    using ra rb q fresh cb rev upd[of a]
    by (simp add: process_read_def process_fragment_def split: sum.splits)
  show "count_reads info fwd [b, a] st =
           count_fragment info (reference_name a) (fragment_strand fwd a) a b st"
    using ra rb q fresh ca rev upd[of b]
    by (simp add: process_read_def process_fragment_def split: sum.splits)
qed

text \<open>
  Claim C10. Two retained records of one query name, not yet in the cache, with
  complementary read1/read2 designations and opposite reverse-strand flags: whichever
  arrives second triggers the pairing and its flags resolve the strand, and both orders
  count the fragment with the same strand (and so the same antisense strand).
\<close>

theorem strand_commutes_with_arrival_order:
  assumes "retained a = Inr True" and "retained b = Inr True"
    and "query_name a = query_name b"
    and "unpaired_reads st (query_name a) = None"
    and "reference_name a \<in> set (intergenics info)"
    and "reference_name b \<in> set (intergenics info)"
    and "is_read1 a = is_read2 b" and "is_read2 a = is_read1 b"
    and "is_reverse a \<noteq> is_reverse b"
  shows "fragment_strand fwd a = fragment_strand fwd b \<and>
         antisense_of (fragment_strand fwd a) = antisense_of (fragment_strand fwd b) \<and>
         count_reads info fwd [a, b] st =
           count_fragment info (reference_name b) (fragment_strand fwd a) b a st \<and>
         count_reads info fwd [b, a] st =
           count_fragment info (reference_name a) (fragment_strand fwd a) a b st"
proof -
  have same: "fragment_strand fwd a = fragment_strand fwd b"
    using assms(7-9) by (auto simp: fragment_strand_def read1_reverse_aligned_def)
  from pair_either_order [OF assms(1-6) assms(9), of fwd] same
  show ?thesis by simp
qed

theorem strand_commutes_with_arrival_order_witness:
  "retained (paired_read ''f1'' False False [(149, 160)]) = Inr True \<and>
   retained (paired_read ''f1'' True True [(349, 360)]) = Inr True \<and>
   unpaired_reads initial_state ''f1'' = None \<and>
   fragment_strand False (paired_read ''f1'' False False [(149, 160)]) = Plus \<and>
   fragment_strand False (paired_read ''f1'' True True [(349, 360)]) = Plus \<and>
   count_reads (overlap_info 1000) False
     [paired_read ''f1'' False False [(149, 160)], paired_read ''f1'' True True [(349, 360)]]
     initial_state =
   count_fragment (overlap_info 1000) ''1'' Plus
     (paired_read ''f1'' True True [(349, 360)]) (paired_read ''f1'' False False [(149, 160)])
     initial_state \<and>
   count_reads (overlap_info 1000) False
     [paired_read ''f1'' True True [(349, 360)], paired_read ''f1'' False False [(149, 160)]]
     initial_state =
   count_fragment (overlap_info 1000) ''1'' Plus
     (paired_read ''f1'' False False [(149, 160)]) (paired_read ''f1'' True True [(349, 360)])
     initial_state"
proof -
  let ?a = "paired_read ''f1'' False False [(149, 160)]"
  let ?b = "paired_read ''f1'' True True [(349, 360)]"
  have ra: "retained ?a = Inr True" and rb: "retained ?b = Inr True"
    by (simp_all add: retained_def paired_read_def)
  have q: "query_name ?a = query_name ?b" by (simp add: paired_read_def)
  have fresh: "unpaired_reads initial_state (query_name ?a) = None"
    by (simp add: initial_state_def)
  have ca: "reference_name ?a \<in> set (intergenics (overlap_info 1000))"
    and cb: "reference_name ?b \<in> set (intergenics (overlap_info 1000))"
    by (simp_all add: paired_read_def overlap_info_def)
  have d1: "is_read1 ?a = is_read2 ?b" and d2: "is_read2 ?a = is_read1 ?b"
    and rev: "is_reverse ?a \<noteq> is_reverse ?b"
    by (simp_all add: paired_read_def)
  have sa: "fragment_strand False ?a = Plus"
    by (simp add: fragment_strand_def read1_reverse_aligned_def paired_read_def)
  have nm: "reference_name ?a = ''1''" "reference_name ?b = ''1''" "query_name ?a = ''f1''"
    by (simp_all add: paired_read_def)
  from strand_commutes_with_arrival_order [OF ra rb q fresh ca cb d1 d2 rev, of False]
  show ?thesis using ra rb fresh sa nm by simp
qed

subsection \<open>The transcript-level rate\<close>

lemma transcript_sums_fold:
  "fold (\<lambda>intron (sense_counts, antisense_counts, total_length).
             (sense_counts + counter_get normalized intron * of_int (effective_length info intron),
              antisense_counts +
                counter_get antisense_normalized intron * of_int (effective_length info intron),
              total_length + effective_length info intron))
        xs (s, a, l) =
   (s + (\<Sum>i\<leftarrow>xs. counter_get normalized i * of_int (effective_length info i)),
    a + (\<Sum>i\<leftarrow>xs. counter_get antisense_normalized i * of_int (effective_length info i)),
    l + (\<Sum>i\<leftarrow>xs. effective_length info i))"
  by (induction xs arbitrary: s a l) (simp_all add: add.assoc)

lemma transcript_sums_eq:
  "transcript_sums info normalized antisense_normalized xs =
   ((\<Sum>i\<leftarrow>xs. counter_get normalized i * of_int (effective_length info i)),
    (\<Sum>i\<leftarrow>xs. counter_get antisense_normalized i * of_int (effective_length info i)),
    (\<Sum>i\<leftarrow>xs. effective_length info i))"
  unfolding transcript_sums_def by (simp add: transcript_sums_fold)

lemma non_flank_introns_nth:
  "non_flank_introns t = map (\<lambda>k. introns t ! k) [1..<length (introns t) - 1]"
proof -
  have "butlast (tl xs) = map (\<lambda>k. xs ! k) [1..<length xs - 1]" for xs :: "intron list"
  proof (rule nth_equalityI)
    show "length (butlast (tl xs)) = length (map (\<lambda>k. xs ! k) [1..<length xs - 1])"
      by simp
  next
    fix i assume "i < length (butlast (tl xs))"
    then have i: "i < length xs - 2" by simp
    then have "butlast (tl xs) ! i = xs ! Suc i"
      by (simp add: nth_butlast nth_tl)
    moreover have "map (\<lambda>k. xs ! k) [1..<length xs - 1] ! i = xs ! Suc i"
      using i by simp
    ultimately show "butlast (tl xs) ! i = map (\<lambda>k. xs ! k) [1..<length xs - 1] ! i"
      by simp
  qed
  then show ?thesis by (simp add: non_flank_introns_def)
qed

lemma non_flank_introns_short: "length (introns t) \<le> 2 \<Longrightarrow> non_flank_introns t = []"
  by (simp add: non_flank_introns_nth)

lemma fold_rates_other:
  "k \<notin> fst ` set kvs \<Longrightarrow>
   map_of (fst (fold (\<lambda>(tid, t) (sense_tbl, antisense_tbl).
             (AList.update tid (f t) sense_tbl, AList.update tid (g t) antisense_tbl))
          kvs (a, b))) k = map_of a k \<and>
   map_of (snd (fold (\<lambda>(tid, t) (sense_tbl, antisense_tbl).
             (AList.update tid (f t) sense_tbl, AList.update tid (g t) antisense_tbl))
          kvs (a, b))) k = map_of b k"
  by (induction kvs arbitrary: a b) (auto simp: update_conv')

lemma fold_rates_entry:
  assumes "distinct (map fst kvs)" "(k, v) \<in> set kvs"
  shows "map_of (fst (fold (\<lambda>(tid, t) (sense_tbl, antisense_tbl).
             (AList.update tid (f t) sense_tbl, AList.update tid (g t) antisense_tbl))
          kvs (a, b))) k = Some (f v) \<and>
         map_of (snd (fold (\<lambda>(tid, t) (sense_tbl, antisense_tbl).
             (AList.update tid (f t) sense_tbl, AList.update tid (g t) antisense_tbl))
          kvs (a, b))) k = Some (g v)"
  using assms
proof (induction kvs arbitrary: a b)
  case Nil
  then show ?case by simp
next
  case (Cons kv kvs)
  obtain k' v' where kv: "kv = (k', v')" by (cases kv)
  show ?case
  proof (cases "(k, v) = (k', v')")
    case True
    with Cons.prems kv have "k \<notin> fst ` set kvs" by auto
    from fold_rates_other[OF this, of f g "AList.update k (f v) a" "AList.update k (g v) b"]
    show ?thesis using True kv by (simp add: update_conv')
  next
    case False
    with Cons.prems kv have "(k, v) \<in> set kvs" "distinct (map fst kvs)" by auto
    from Cons.IH[OF this(2,1)] show ?thesis using kv by simp
  qed
qed

lemma transcript_rates_eq:
  "transcript_rates info normalized antisense_normalized t =
     (if (\<Sum>i\<leftarrow>non_flank_introns t. effective_length info i) = 0 then (0, 0)
      else ((\<Sum>i\<leftarrow>non_flank_introns t.
               counter_get normalized i * of_int (effective_length info i))
            / of_int (\<Sum>i\<leftarrow>non_flank_introns t. effective_length info i),
            (\<Sum>i\<leftarrow>non_flank_introns t.
               counter_get antisense_normalized i * of_int (effective_length info i))
            / of_int (\<Sum>i\<leftarrow>non_flank_introns t. effective_length info i)))"
  by (simp add: transcript_rates_def transcript_sums_eq)

text \<open>
  Claim C6. The non-flank introns of a transcript are its introns at positions
  \<open>1 .. n - 2\<close>. The rate stored for a transcript is the sum of normalized count times
  (sense) effective length over them, divided by the sum of their effective lengths, for
  the sense and for the antisense counts alike; when that total length is 0 both rates
  are 0, which is the case for every transcript of at most two introns.
\<close>

theorem transcript_rate_weighted_mean:
  assumes "distinct (map fst (transcripts info))"
    and "(tid, t) \<in> set (transcripts info)"
  shows "non_flank_introns t = map (\<lambda>k. introns t ! k) [1..<length (introns t) - 1] \<and>
         map_of (fst (aggregate_transcripts info normalized antisense_normalized)) tid =
           Some (if (\<Sum>i\<leftarrow>non_flank_introns t. effective_length info i) = 0 then 0
                 else (\<Sum>i\<leftarrow>non_flank_introns t.
                         counter_get normalized i * of_int (effective_length info i))
                      / of_int (\<Sum>i\<leftarrow>non_flank_introns t. effective_length info i)) \<and>
         map_of (snd (aggregate_transcripts info normalized antisense_normalized)) tid =
           Some (if (\<Sum>i\<leftarrow>non_flank_introns t. effective_length info i) = 0 then 0
                 else (\<Sum>i\<leftarrow>non_flank_introns t.
                         counter_get antisense_normalized i * of_int (effective_length info i))
                      / of_int (\<Sum>i\<leftarrow>non_flank_introns t. effective_length info i)) \<and>
         (length (introns t) \<le> 2 \<longrightarrow>
            map_of (fst (aggregate_transcripts info normalized antisense_normalized)) tid = Some 0 \<and>
            map_of (snd (aggregate_transcripts info normalized antisense_normalized)) tid = Some 0)"
proof -
  note entry = fold_rates_entry[OF assms,
      of "\<lambda>t. fst (transcript_rates info normalized antisense_normalized t)"
         "\<lambda>t. snd (transcript_rates info normalized antisense_normalized t)" "[]" "[]"]
  have s: "map_of (fst (aggregate_transcripts info normalized antisense_normalized)) tid =
           Some (fst (transcript_rates info normalized antisense_normalized t))"
    using entry by (simp add: aggregate_transcripts_def)
  have a: "map_of (snd (aggregate_transcripts info normalized antisense_normalized)) tid =
           Some (snd (transcript_rates info normalized antisense_normalized t))"
    using entry by (simp add: aggregate_transcripts_def)
  have fst_eq: "fst (transcript_rates info normalized antisense_normalized t) =
      (if (\<Sum>i\<leftarrow>non_flank_introns t. effective_length info i) = 0 then 0
                 else (\<Sum>i\<leftarrow>non_flank_introns t.
                         counter_get normalized i * of_int (effective_length info i))
                      / of_int (\<Sum>i\<leftarrow>non_flank_introns t. effective_length info i))"
    by (simp add: transcript_rates_eq)
  have snd_eq: "snd (transcript_rates info normalized antisense_normalized t) =
      (if (\<Sum>i\<leftarrow>non_flank_introns t. effective_length info i) = 0 then 0
                 else (\<Sum>i\<leftarrow>non_flank_introns t.
                         counter_get antisense_normalized i * of_int (effective_length info i))
                      / of_int (\<Sum>i\<leftarrow>non_flank_introns t. effective_length info i))"
    by (simp add: transcript_rates_eq)
  have short: "transcript_rates info normalized antisense_normalized t = (0, 0)"
    if "length (introns t) \<le> 2"
    using that by (simp add: transcript_rates_eq non_flank_introns_short)
  have c1: "non_flank_introns t = map (\<lambda>k. introns t ! k) [1..<length (introns t) - 1]"
    by (rule non_flank_introns_nth)
  have c4: "length (introns t) \<le> 2 \<longrightarrow>
            map_of (fst (aggregate_transcripts info normalized antisense_normalized)) tid = Some 0 \<and>
            map_of (snd (aggregate_transcripts info normalized antisense_normalized)) tid = Some 0"
    using s a short by simp
  from c1 s[unfolded fst_eq] a[unfolded snd_eq] c4 show ?thesis by blast
qed

theorem transcript_rate_weighted_mean_witness:
  "distinct (map fst (transcripts
     (overlap_info 1000\<lparr>effective_length := (\<lambda>i. 100 * int (Suc i)),
        transcripts := [(''T'', \<lparr>transcript_id = ''T'', introns = [0, 1, 2, 3]\<rparr>)]\<rparr>))) \<and>
   non_flank_introns \<lparr>transcript_id = ''T'', introns = [0, 1, 2, 3]\<rparr> = [1, 2] \<and>
   map_of (fst (aggregate_transcripts
     (overlap_info 1000\<lparr>effective_length := (\<lambda>i. 100 * int (Suc i)),
        transcripts := [(''T'', \<lparr>transcript_id = ''T'', introns = [0, 1, 2, 3]\<rparr>)]\<rparr>)
     [(1, 10), (2, 20), (0, 7)] [(2, 5)])) ''T'' = Some 16 \<and>
   map_of (snd (aggregate_transcripts
     (overlap_info 1000\<lparr>effective_length := (\<lambda>i. 100 * int (Suc i)),
        transcripts := [(''T'', \<lparr>transcript_id = ''T'', introns = [0, 1, 2, 3]\<rparr>)]\<rparr>)
     [(1, 10), (2, 20), (0, 7)] [(2, 5)])) ''T'' = Some 3"
proof -
  let ?t = "\<lparr>transcript_id = ''T'', introns = [0, 1, 2, 3]\<rparr>"
  let ?info = "overlap_info 1000\<lparr>effective_length := (\<lambda>i. 100 * int (Suc i)),
        transcripts := [(''T'', ?t)]\<rparr>"
  have d: "distinct (map fst (transcripts ?info))" by simp
  have m: "(''T'', ?t) \<in> set (transcripts ?info)" by simp
  have nf: "non_flank_introns ?t = [1, 2]" by (simp add: non_flank_introns_def)
  from transcript_rate_weighted_mean [OF d m, of "[(1, 10), (2, 20), (0, 7)]" "[(2, 5)]"]
  show ?thesis using d nf by (simp add: counter_get_def)
qed

subsection \<open>Touched sets and raw counts of a fragment\<close>

lemma touch_blocks_error: "touch_blocks ax blocks t = Inl err \<Longrightarrow> err = IndexError"
proof (induction ax blocks t rule: touch_blocks.induct)
  case (1 ax touched)
  then show ?case by simp
next
  case (2 ax start0 end' blocks touched)
  then show ?case by (auto split: sum.splits dest: touch_axis_error)
qed

lemma resolve_blocks_decompose:
  "resolve_blocks sense anti ig blocks (mt, amt, it) =
     (case touch_blocks sense blocks mt of
        Inl e \<Rightarrow> Inl IndexError
      | Inr mt' \<Rightarrow>
          (case touch_blocks anti blocks amt of
             Inl e \<Rightarrow> Inl IndexError
           | Inr amt' \<Rightarrow>
               (case touch_blocks ig blocks it of
                  Inl e \<Rightarrow> Inl IndexError
                | Inr it' \<Rightarrow> Inr (mt', amt', it'))))"
proof (induction blocks arbitrary: mt amt it)
  case Nil
  then show ?case by simp
next
  case (Cons b blocks)
  obtain start0 end' where b: "b = (start0, end')" by (cases b)
  show ?case
  proof (cases "touch_axis sense (start0 + 1) end' mt")
    case (Inl e)
    then show ?thesis using b by (auto dest: touch_axis_error)
  next
    case s: (Inr mt')
    show ?thesis
    proof (cases "touch_axis anti (start0 + 1) end' amt")
      case (Inl e)
      then show ?thesis using b s by (auto dest: touch_axis_error split: sum.splits)
    next
      case a: (Inr amt')
      show ?thesis
      proof (cases "touch_axis ig (start0 + 1) end' it")
        case (Inl e)
        then show ?thesis using b s a by (auto dest: touch_axis_error split: sum.splits)
      next
        case (Inr it')
        then show ?thesis using b s a Cons.IH[of mt' amt' it'] by (simp split: sum.splits)
      qed
    qed
  qed
qed

lemma touch_blocks_None: "touch_blocks None blocks touched = Inr touched"
  by (induction blocks) (auto simp: touch_axis_def)

lemma touch_blocks_wf:
  assumes "wf_axis starts ends"
    and "\<forall>(start0, end') \<in> set blocks. start0 < end'"
    and "distinct touched"
  shows "\<exists>r. touch_blocks (Some (starts, ends)) blocks touched = Inr r \<and> distinct r \<and>
             set r = set touched \<union> touched_bins (Some (starts, ends)) blocks"
  using assms(2,3)
proof (induction blocks arbitrary: touched)
  case Nil
  then show ?case by (simp add: touched_bins_def)
next
  case (Cons b blocks)
  obtain start0 end' where b: "b = (start0, end')" by (cases b)
  with Cons.prems have "start0 + 1 \<le> end'" by simp
  from block_touched_exact[OF assms(1) this] obtain r where
    r: "block_touched starts ends (start0 + 1) end' = Inr r" "distinct r"
       "set r = {i. i < length starts \<and> intersects (starts ! i, ends ! i) (start0 + 1, end')}"
    by blast
  have step: "touch_axis (Some (starts, ends)) (start0 + 1) end' touched = Inr (List.union r touched)"
    using r(1) by (simp add: touch_axis_def)
  have "distinct (List.union r touched)" using Cons.prems by simp
  moreover have "\<forall>(start0, end') \<in> set blocks. start0 < end'" using Cons.prems by simp
  ultimately obtain r' where
    r': "touch_blocks (Some (starts, ends)) blocks (List.union r touched) = Inr r'" "distinct r'"
        "set r' = set (List.union r touched) \<union> touched_bins (Some (starts, ends)) blocks"
    using Cons.IH by blast
  have "set r' = set touched \<union> touched_bins (Some (starts, ends)) (b # blocks)"
    using r'(3) r(3) b by (auto simp: touched_bins_def)
  with r'(1,2) step b show ?case by simp
qed

lemma touch_blocks_ok:
  assumes "wf_axis_option ax"
    and "\<forall>(start0, end') \<in> set blocks. start0 < end'"
  shows "\<exists>r. touch_blocks ax blocks [] = Inr r \<and> distinct r \<and> set r = touched_bins ax blocks"
proof (cases ax)
  case None
  then show ?thesis by (simp add: touch_blocks_None touched_bins_def)
next
  case (Some p)
  obtain starts ends where p: "p = (starts, ends)" by (cases p)
  with Some assms(1) have "wf_axis starts ends" by (simp add: wf_axis_option_def)
  from touch_blocks_wf[OF this assms(2), of "[]"] Some p show ?thesis by simp
qed

lemma counter_get_incr:
  "counter_get (counter_incr c k) x = (if x = k then counter_get c k + 1 else counter_get c x)"
  by (simp add: counter_incr_def counter_get_def update_conv')

lemma counter_get_fold_incr:
  "counter_get (fold (\<lambda>i c. counter_incr c i) ps counts) x = counter_get counts x + count_list ps x"
  by (induction ps arbitrary: counts) (simp_all add: counter_get_incr)

lemma accumulate_counts:
  assumes "\<forall>idx \<in> set touched. \<exists>ps. primaries idx = Inr ps"
  shows "\<exists>counts'. accumulate primaries touched counts = Inr counts' \<and>
           (\<forall>x. counter_get counts' x =
                  counter_get counts x + (\<Sum>idx\<leftarrow>touched. hits (primaries idx) x))"
  using assms
proof (induction touched arbitrary: counts)
  case Nil
  then show ?case by simp
next
  case (Cons idx touched)
  then obtain ps where ps: "primaries idx = Inr ps" by auto
  from Cons.prems have "\<forall>idx \<in> set touched. \<exists>ps. primaries idx = Inr ps" by simp
  from Cons.IH[OF this, of "fold (\<lambda>i c. counter_incr c i) ps counts"]
  obtain counts' where
    c: "accumulate primaries touched (fold (\<lambda>i c. counter_incr c i) ps counts) = Inr counts'"
       "\<forall>x. counter_get counts' x =
            counter_get (fold (\<lambda>i c. counter_incr c i) ps counts) x +
            (\<Sum>idx\<leftarrow>touched. hits (primaries idx) x)"
    by blast
  show ?case using ps c by (simp add: counter_get_fold_incr hits_def)
qed


lemma consistent_axis_wf: "consistent_axis ax ms \<Longrightarrow> wf_axis_option ax"
  by (auto simp: consistent_axis_def wf_axis_option_def split: option.splits)

lemma touched_mintron_defined:
  assumes "consistent_axis ax (mintrons_by_chrom info key)" and "idx \<in> touched_bins ax blocks"
  shows "\<exists>m. mintron_at info key idx = Inr m"
  using assms
  by (auto simp: consistent_axis_def touched_bins_def mintron_at_def split: option.splits)

lemma accumulate_touched:
  assumes def: "\<forall>idx \<in> set touched. \<exists>ps. primaries idx = Inr ps"
    and dist: "distinct touched"
  shows "\<exists>counts'. accumulate primaries touched counts = Inr counts' \<and>
           (\<forall>x. counter_get counts' x =
                  counter_get counts x + (\<Sum>idx \<in> set touched. hits (primaries idx) x))"
proof -
  from accumulate_counts[OF def, of counts] obtain counts' where
    c: "accumulate primaries touched counts = Inr counts'"
       "\<forall>x. counter_get counts' x =
            counter_get counts x + (\<Sum>idx\<leftarrow>touched. hits (primaries idx) x)"
    by blast
  have "(\<Sum>idx\<leftarrow>touched. hits (primaries idx) x) = (\<Sum>idx \<in> set touched. hits (primaries idx) x)"
    for x
    using dist by (rule sum_list_distinct_conv_sum_set)
  with c show ?thesis by simp
qed

lemma count_fragment_hits:
  assumes sense: "consistent_axis (mintron_extents_by_chrom info (chrom, strand))
                    (mintrons_by_chrom info (chrom, strand))"
    and anti: "consistent_axis (mintron_extents_by_chrom info (chrom, antisense_of strand))
                 (mintrons_by_chrom info (chrom, antisense_of strand))"
    and ig: "wf_axis_option (intergenic_extents_by_chrom info chrom)"
    and blocks: "\<forall>(start0, end') \<in> set (get_blocks rd @ get_blocks mate). start0 < end'"
  shows "\<exists>st'. count_fragment info chrom strand rd mate st = Inr st' \<and>
           (\<forall>x. counter_get (intron_read_counts st') x =
                  counter_get (intron_read_counts st) x +
                  (\<Sum>idx \<in> touched_bins (mintron_extents_by_chrom info (chrom, strand))
                                (get_blocks rd @ get_blocks mate).
                     hits (sense_primaries info (chrom, strand) idx) x)) \<and>
           (\<forall>x. counter_get (intron_antisense_read_counts st') x =
                  counter_get (intron_antisense_read_counts st) x +
                  (\<Sum>idx \<in> touched_bins (mintron_extents_by_chrom info (chrom, antisense_of strand))
                                (get_blocks rd @ get_blocks mate).
                     hits (antisense_primaries info (chrom, antisense_of strand) idx) x))"
proof -
  let ?blocks = "get_blocks rd @ get_blocks mate"
  let ?sax = "mintron_extents_by_chrom info (chrom, strand)"
  let ?aax = "mintron_extents_by_chrom info (chrom, antisense_of strand)"
  let ?iax = "intergenic_extents_by_chrom info chrom"
  obtain mt where mt: "touch_blocks ?sax ?blocks [] = Inr mt" "distinct mt"
      "set mt = touched_bins ?sax ?blocks"
    using touch_blocks_ok[OF consistent_axis_wf[OF sense] blocks] by blast
  obtain amt where amt: "touch_blocks ?aax ?blocks [] = Inr amt" "distinct amt"
      "set amt = touched_bins ?aax ?blocks"
    using touch_blocks_ok[OF consistent_axis_wf[OF anti] blocks] by blast
  obtain it where it: "touch_blocks ?iax ?blocks [] = Inr it"
    using touch_blocks_ok[OF ig blocks] by blast
  have res: "resolve_blocks ?sax ?aax ?iax ?blocks ([], [], []) = Inr (mt, amt, it)"
    using mt(1) amt(1) it by (simp add: resolve_blocks_decompose)
  have "\<forall>idx \<in> set mt. \<exists>ps. sense_primaries info (chrom, strand) idx = Inr ps"
  proof
    fix idx assume "idx \<in> set mt"
    then have "idx \<in> touched_bins ?sax ?blocks" using mt(3) by simp
    from touched_mintron_defined[OF sense this]
    show "\<exists>ps. sense_primaries info (chrom, strand) idx = Inr ps"
      by (auto simp: sense_primaries_def)
  qed
  from accumulate_touched[OF this mt(2), of "intron_read_counts st"]
  obtain counts where counts:
      "accumulate (sense_primaries info (chrom, strand)) mt (intron_read_counts st) = Inr counts"
      "\<forall>x. counter_get counts x = counter_get (intron_read_counts st) x +
            (\<Sum>idx \<in> set mt. hits (sense_primaries info (chrom, strand) idx) x)"
    by blast
  have "\<forall>idx \<in> set amt. \<exists>ps. antisense_primaries info (chrom, antisense_of strand) idx = Inr ps"
  proof
    fix idx assume "idx \<in> set amt"
    then have "idx \<in> touched_bins ?aax ?blocks" using amt(3) by simp
    from touched_mintron_defined[OF anti this]
    show "\<exists>ps. antisense_primaries info (chrom, antisense_of strand) idx = Inr ps"
      by (auto simp: antisense_primaries_def)
  qed
  from accumulate_touched[OF this amt(2), of "intron_antisense_read_counts st"]
  obtain acounts where acounts:
      "accumulate (antisense_primaries info (chrom, antisense_of strand)) amt
         (intron_antisense_read_counts st) = Inr acounts"
      "\<forall>x. counter_get acounts x = counter_get (intron_antisense_read_counts st) x +
            (\<Sum>idx \<in> set amt. hits (antisense_primaries info (chrom, antisense_of strand) idx) x)"
    by blast
  have "count_fragment info chrom strand rd mate st =
          Inr (st\<lparr>intron_read_counts := counts, intron_antisense_read_counts := acounts,
                  intergenic_read_counts :=
                    accumulate_intergenic chrom it (intergenic_read_counts st)\<rparr>)"
    using res counts(1) acounts(1) by (simp add: count_fragment_def)
  then show ?thesis using counts(2) acounts(2) mt(3) amt(3) by simp
qed

lemma hits_sense_primaries:
  assumes "consistent_axis ax (mintrons_by_chrom info key)" and "idx \<in> touched_bins ax blocks"
  shows "hits (sense_primaries info key idx) x =
         count_list (case mintrons_by_chrom info key of
                       None \<Rightarrow> []
                     | Some ms \<Rightarrow> primary_introns info (ms ! idx)) x"
  using assms
  by (auto simp: consistent_axis_def touched_bins_def hits_def sense_primaries_def mintron_at_def
           split: option.splits)

lemma hits_antisense_primaries:
  assumes "consistent_axis ax (mintrons_by_chrom info key)" and "idx \<in> touched_bins ax blocks"
  shows "hits (antisense_primaries info key idx) x =
         count_list (case mintrons_by_chrom info key of
                       None \<Rightarrow> []
                     | Some ms \<Rightarrow> primary_antisense_introns info (ms ! idx)) x"
  using assms
  by (auto simp: consistent_axis_def touched_bins_def hits_def antisense_primaries_def
                 mintron_at_def
           split: option.splits)

text \<open>
  Claim C7, as amended. On an index that is consistent for the fragment's chromosome,
  counting a fragment whose blocks are non-empty succeeds. The touched set of an axis is
  the set of bins that some block of either mate intersects, and every touched bin
  \<open>idx\<close> adds exactly one, however many blocks overlap it, to the raw sense count of each
  intron in \<^verbatim>\<open>mintrons_by_chrom[chrom, strand][idx].primary_introns\<close>. The gain of an
  intron per fragment is therefore the number of touched mintrons it is sense-primary
  for: 1 for one such mintron, 2 for two. The antisense counts gain likewise from
  \<^verbatim>\<open>primary_antisense_introns\<close> of the touched mintrons of the opposite strand.
\<close>

theorem fragment_counts_touched_mintron_once:
  assumes sense: "consistent_axis (mintron_extents_by_chrom info (chrom, strand))
                    (mintrons_by_chrom info (chrom, strand))"
    and anti: "consistent_axis (mintron_extents_by_chrom info (chrom, antisense_of strand))
                 (mintrons_by_chrom info (chrom, antisense_of strand))"
    and ig: "wf_axis_option (intergenic_extents_by_chrom info chrom)"
    and blocks: "\<forall>(start0, end') \<in> set (get_blocks rd @ get_blocks mate). start0 < end'"
  shows "\<exists>st'. count_fragment info chrom strand rd mate st = Inr st' \<and>
           (\<forall>x. counter_get (intron_read_counts st') x =
                  counter_get (intron_read_counts st) x +
                  (\<Sum>idx \<in> touched_bins (mintron_extents_by_chrom info (chrom, strand))
                                (get_blocks rd @ get_blocks mate).
                     count_list (case mintrons_by_chrom info (chrom, strand) of
                                   None \<Rightarrow> []
                                 | Some ms \<Rightarrow> primary_introns info (ms ! idx)) x)) \<and>
           (\<forall>x. counter_get (intron_antisense_read_counts st') x =
                  counter_get (intron_antisense_read_counts st) x +
                  (\<Sum>idx \<in> touched_bins (mintron_extents_by_chrom info (chrom, antisense_of strand))
                                (get_blocks rd @ get_blocks mate).
                     count_list (case mintrons_by_chrom info (chrom, antisense_of strand) of
                                   None \<Rightarrow> []
                                 | Some ms \<Rightarrow> primary_antisense_introns info (ms ! idx)) x))"
proof -
  let ?blocks = "get_blocks rd @ get_blocks mate"
  from count_fragment_hits[OF sense anti ig blocks, of st]
  obtain st' where
    st': "count_fragment info chrom strand rd mate st = Inr st'"
    and s: "\<And>x. counter_get (intron_read_counts st') x =
                  counter_get (intron_read_counts st) x +
                  (\<Sum>idx \<in> touched_bins (mintron_extents_by_chrom info (chrom, strand)) ?blocks.
                     hits (sense_primaries info (chrom, strand) idx) x)"
    and a: "\<And>x. counter_get (intron_antisense_read_counts st') x =
                  counter_get (intron_antisense_read_counts st) x +
                  (\<Sum>idx \<in> touched_bins (mintron_extents_by_chrom info (chrom, antisense_of strand))
                                ?blocks.
                     hits (antisense_primaries info (chrom, antisense_of strand) idx) x)"
    by blast
  have s': "(\<Sum>idx \<in> touched_bins (mintron_extents_by_chrom info (chrom, strand)) ?blocks.
                hits (sense_primaries info (chrom, strand) idx) x) =
            (\<Sum>idx \<in> touched_bins (mintron_extents_by_chrom info (chrom, strand)) ?blocks.
                count_list (case mintrons_by_chrom info (chrom, strand) of
                              None \<Rightarrow> []
                            | Some ms \<Rightarrow> primary_introns info (ms ! idx)) x)" for x
    by (rule sum.cong) (simp_all add: hits_sense_primaries[OF sense])
  have a': "(\<Sum>idx \<in> touched_bins (mintron_extents_by_chrom info (chrom, antisense_of strand))
                        ?blocks.
                hits (antisense_primaries info (chrom, antisense_of strand) idx) x) =
            (\<Sum>idx \<in> touched_bins (mintron_extents_by_chrom info (chrom, antisense_of strand))
                        ?blocks.
                count_list (case mintrons_by_chrom info (chrom, antisense_of strand) of
                              None \<Rightarrow> []
                            | Some ms \<Rightarrow> primary_antisense_introns info (ms ! idx)) x)" for x
    by (rule sum.cong) (simp_all add: hits_antisense_primaries[OF anti])
  show ?thesis using st' s a s' a' by auto
qed

theorem fragment_counts_touched_mintron_once_witness:
  "touched_bins (mintron_extents_by_chrom shifted_info (''1'', Plus))
     (get_blocks (paired_read ''f1'' True True [(349, 360)]) @
      get_blocks (paired_read ''f1'' False False [(149, 160), (155, 170)])) = {0, 1} \<and>
   mintrons_by_chrom shifted_info (''1'', Plus) = Some [5, 7] \<and>
   primary_introns shifted_info 5 = [0] \<and> primary_introns shifted_info 7 = [1, 0] \<and>
   primary_antisense_introns shifted_info 5 = [2] \<and>
   primary_antisense_introns shifted_info 7 = [3] \<and>
   (\<exists>st'. count_fragment shifted_info ''1'' Plus
            (paired_read ''f1'' True True [(349, 360)])
            (paired_read ''f1'' False False [(149, 160), (155, 170)]) initial_state = Inr st' \<and>
          counter_get (intron_read_counts st') 0 = 2 \<and>
          counter_get (intron_read_counts st') 1 = 1 \<and>
          counter_get (intron_read_counts st') 2 = 0 \<and>
          counter_get (intron_antisense_read_counts st') 2 = 0) \<and>
   (\<exists>st'. count_fragment shifted_info ''1'' Minus
            (paired_read ''f2'' True False [(349, 360)])
            (paired_read ''f2'' False True [(149, 160), (155, 170)]) initial_state = Inr st' \<and>
          counter_get (intron_antisense_read_counts st') 2 = 1 \<and>
          counter_get (intron_antisense_read_counts st') 3 = 1 \<and>
          counter_get (intron_antisense_read_counts st') 0 = 0 \<and>
          counter_get (intron_read_counts st') 0 = 0)"
proof -
  let ?info = "shifted_info"
  let ?rd = "paired_read ''f1'' True True [(349, 360)]"
  let ?mate = "paired_read ''f1'' False False [(149, 160), (155, 170)]"
  let ?rd' = "paired_read ''f2'' True False [(349, 360)]"
  let ?mate' = "paired_read ''f2'' False True [(149, 160), (155, 170)]"
  have bl: "get_blocks ?rd @ get_blocks ?mate = [(349, 360), (149, 160), (155, 170)]"
    and bl': "get_blocks ?rd' @ get_blocks ?mate' = [(349, 360), (149, 160), (155, 170)]"
    by (simp_all add: paired_read_def)
  have sax: "mintron_extents_by_chrom ?info (''1'', Plus) = Some ([100, 300], [200, 400])"
    and aax: "mintron_extents_by_chrom ?info (''1'', Minus) = None"
    and iax: "intergenic_extents_by_chrom ?info ''1'' = Some ([1, 201, 401], [99, 299, 1000])"
    and ms: "mintrons_by_chrom ?info (''1'', Plus) = Some [5, 7]"
    and p5: "primary_introns ?info 5 = [0]" and p7: "primary_introns ?info 7 = [1, 0]"
    and a5: "primary_antisense_introns ?info 5 = [2]"
    and a7: "primary_antisense_introns ?info 7 = [3]"
    by (simp_all add: shifted_info_def overlap_info_def)
  have opp: "antisense_of Plus = Minus" "antisense_of Minus = Plus"
    by (simp_all add: antisense_of_def)
  have plus: "consistent_axis (mintron_extents_by_chrom ?info (''1'', Plus))
                 (mintrons_by_chrom ?info (''1'', Plus))"
    by (simp add: sax ms consistent_axis_def wf_axis_def)
  have minus: "consistent_axis (mintron_extents_by_chrom ?info (''1'', Minus))
                (mintrons_by_chrom ?info (''1'', Minus))"
    by (simp add: aax consistent_axis_def)
  have ig: "wf_axis_option (intergenic_extents_by_chrom ?info ''1'')"
    by (simp add: iax wf_axis_option_def wf_axis_def)
  have blocks: "\<forall>(start0, end') \<in> set (get_blocks ?rd @ get_blocks ?mate). start0 < end'"
    and blocks': "\<forall>(start0, end') \<in> set (get_blocks ?rd' @ get_blocks ?mate'). start0 < end'"
    by (simp_all add: bl bl')
  have tb: "touched_bins (Some ([100, 300], [200, 400]))
              [(349, 360), (149, 160), (155, 170)] = {0, 1}"
    by (auto simp: touched_bins_def intersects_def less_Suc_eq)
  have tbn: "touched_bins None [(349, 360), (149, 160), (155, 170)] = {}"
    by (simp add: touched_bins_def)
  have init: "counter_get (intron_read_counts initial_state) x = 0"
             "counter_get (intron_antisense_read_counts initial_state) x = 0" for x :: nat
    by (simp_all add: initial_state_def counter_get_def)
  from fragment_counts_touched_mintron_once
         [of ?info "''1''" Plus ?rd ?mate initial_state] plus minus ig blocks
  obtain st1 where
    st1: "count_fragment ?info ''1'' Plus ?rd ?mate initial_state = Inr st1"
         "\<forall>x. counter_get (intron_read_counts st1) x =
                counter_get (intron_read_counts initial_state) x +
                (\<Sum>idx \<in> touched_bins (mintron_extents_by_chrom ?info (''1'', Plus))
                              (get_blocks ?rd @ get_blocks ?mate).
                   count_list (case mintrons_by_chrom ?info (''1'', Plus) of
                                 None \<Rightarrow> []
                               | Some ms \<Rightarrow> primary_introns ?info (ms ! idx)) x)"
         "\<forall>x. counter_get (intron_antisense_read_counts st1) x =
                counter_get (intron_antisense_read_counts initial_state) x +
                (\<Sum>idx \<in> touched_bins (mintron_extents_by_chrom ?info (''1'', antisense_of Plus))
                              (get_blocks ?rd @ get_blocks ?mate).
                   count_list (case mintrons_by_chrom ?info (''1'', antisense_of Plus) of
                                 None \<Rightarrow> []
                               | Some ms \<Rightarrow> primary_antisense_introns ?info (ms ! idx)) x)"
    unfolding opp by blast
  from fragment_counts_touched_mintron_once
         [of ?info "''1''" Minus ?rd' ?mate' initial_state] plus minus ig blocks'
  obtain st2 where
    st2: "count_fragment ?info ''1'' Minus ?rd' ?mate' initial_state = Inr st2"
         "\<forall>x. counter_get (intron_read_counts st2) x =
                counter_get (intron_read_counts initial_state) x +
                (\<Sum>idx \<in> touched_bins (mintron_extents_by_chrom ?info (''1'', Minus))
                              (get_blocks ?rd' @ get_blocks ?mate').
                   count_list (case mintrons_by_chrom ?info (''1'', Minus) of
                                 None \<Rightarrow> []
                               | Some ms \<Rightarrow> primary_introns ?info (ms ! idx)) x)"
         "\<forall>x. counter_get (intron_antisense_read_counts st2) x =
                counter_get (intron_antisense_read_counts initial_state) x +
                (\<Sum>idx \<in> touched_bins (mintron_extents_by_chrom ?info (''1'', antisense_of Minus))
                              (get_blocks ?rd' @ get_blocks ?mate').
                   count_list (case mintrons_by_chrom ?info (''1'', antisense_of Minus) of
                                 None \<Rightarrow> []
                               | Some ms \<Rightarrow> primary_antisense_introns ?info (ms ! idx)) x)"
    unfolding opp by blast
  have s0: "counter_get (intron_read_counts st1) 0 = 2"
    using st1(2)[rule_format, of 0] by (simp add: sax bl tb init ms p5 p7)
  have s1: "counter_get (intron_read_counts st1) 1 = 1"
    using st1(2)[rule_format, of 1] by (simp add: sax bl tb init ms p5 p7)
  have s2: "counter_get (intron_read_counts st1) 2 = 0"
    using st1(2)[rule_format, of 2] by (simp add: sax bl tb init ms p5 p7)
  have s3: "counter_get (intron_antisense_read_counts st1) 2 = 0"
    using st1(3)[rule_format, of 2] by (simp add: opp aax bl tbn init)
  have t2: "counter_get (intron_antisense_read_counts st2) 2 = 1"
    using st2(3)[rule_format, of 2] by (simp add: opp sax bl' tb init ms a5 a7)
  have t3: "counter_get (intron_antisense_read_counts st2) 3 = 1"
    using st2(3)[rule_format, of 3] by (simp add: opp sax bl' tb init ms a5 a7)
  have t0: "counter_get (intron_antisense_read_counts st2) 0 = 0"
    using st2(3)[rule_format, of 0] by (simp add: opp sax bl' tb init ms a5 a7)
  have u0: "counter_get (intron_read_counts st2) 0 = 0"
    using st2(2)[rule_format, of 0] by (simp add: aax bl' tbn init)
  have tb': "touched_bins (mintron_extents_by_chrom ?info (''1'', Plus))
               (get_blocks ?rd @ get_blocks ?mate) = {0, 1}"
    by (simp add: sax bl tb)
  from st1(1) s0 s1 s2 s3 have e1:
    "\<exists>st'. count_fragment ?info ''1'' Plus ?rd ?mate initial_state = Inr st' \<and>
          counter_get (intron_read_counts st') 0 = 2 \<and>
          counter_get (intron_read_counts st') 1 = 1 \<and>
          counter_get (intron_read_counts st') 2 = 0 \<and>
          counter_get (intron_antisense_read_counts st') 2 = 0"
    by blast
  from st2(1) t2 t3 t0 u0 have e2:
    "\<exists>st'. count_fragment ?info ''1'' Minus ?rd' ?mate' initial_state = Inr st' \<and>
          counter_get (intron_antisense_read_counts st') 2 = 1 \<and>
          counter_get (intron_antisense_read_counts st') 3 = 1 \<and>
          counter_get (intron_antisense_read_counts st') 0 = 0 \<and>
          counter_get (intron_read_counts st') 0 = 0"
    by blast
  from tb' ms p5 p7 a5 a7 e1 e2 show ?thesis by blast
qed

text \<open>
  Claim C7 as stated fails for an intron that is sense-primary for two touched mintrons:
  with intron 0 primary for both mintrons, the single fragment \<open>sense_pair\<close> raises its
  raw sense count from 0 to 2.
\<close>

theorem intron_primary_twice_gains_two:
  "counter_get (intron_read_counts initial_state) (0 :: nat) = 0 \<and>
   map_sum id intron_read_counts
     (count_reads ((overlap_info 1000)\<lparr>primary_introns := (\<lambda>m. [0])\<rparr>) False sense_pair
        initial_state) = Inr [(0, 2)]"
  by code_simp

text \<open>
  Claim C9. An axis without arrays for the chromosome/strand is skipped at every block:
  its touched set stays empty, it raises nothing, and the result of the block loop is
  that of the two other axes, each processed as it would be alone. Accumulating over an
  empty touched set returns the counts unchanged without looking any mintron up.
\<close>

theorem absent_axis_contributes_nothing:
  "resolve_blocks None anti ig blocks ([], [], []) =
     (case touch_blocks anti blocks [] of
        Inl e \<Rightarrow> Inl e
      | Inr amt \<Rightarrow>
          (case touch_blocks ig blocks [] of Inl e \<Rightarrow> Inl e | Inr it \<Rightarrow> Inr ([], amt, it))) \<and>
   resolve_blocks sense None ig blocks ([], [], []) =
     (case touch_blocks sense blocks [] of
        Inl e \<Rightarrow> Inl e
      | Inr mt \<Rightarrow>
          (case touch_blocks ig blocks [] of Inl e \<Rightarrow> Inl e | Inr it \<Rightarrow> Inr (mt, [], it))) \<and>
   resolve_blocks sense anti None blocks ([], [], []) =
     (case touch_blocks sense blocks [] of
        Inl e \<Rightarrow> Inl e
      | Inr mt \<Rightarrow>
          (case touch_blocks anti blocks [] of Inl e \<Rightarrow> Inl e | Inr amt \<Rightarrow> Inr (mt, amt, []))) \<and>
   accumulate primaries [] counts = Inr counts \<and>
   accumulate_intergenic chrom [] tbl = tbl"
  by (auto simp: resolve_blocks_decompose touch_blocks_None accumulate_intergenic_def
           split: sum.splits dest: touch_blocks_error)

theorem absent_axis_contributes_nothing_witness:
  "mintron_extents_by_chrom (overlap_info 1000) (''1'', Minus) = None \<and>
   resolve_blocks (mintron_extents_by_chrom (overlap_info 1000) (''1'', Minus))
     (Some ([100, 300], [200, 400])) (Some ([1, 201, 401], [99, 299, 1000]))
     [(149, 160), (349, 360), (90, 110)] ([], [], []) = Inr ([], [1, 0], [0])"
proof -
  have none: "mintron_extents_by_chrom (overlap_info 1000) (''1'', Minus) = None"
    by (simp add: overlap_info_def)
  have anti: "touch_blocks (Some ([100, 300], [200, 400]))
                [(149, 160), (349, 360), (90, 110)] [] = Inr [1, 0]"
    by code_simp
  have ig: "touch_blocks (Some ([1, 201, 401], [99, 299, 1000]))
              [(149, 160), (349, 360), (90, 110)] [] = Inr [0]"
    by code_simp
  from absent_axis_contributes_nothing
         [of "Some ([100, 300], [200, 400])" "Some ([1, 201, 401], [99, 299, 1000])"
             "[(149, 160), (349, 360), (90, 110)]"]
  show ?thesis using none anti ig by simp
qed

subsection \<open>Normalization and double-count correction at concrete inputs\<close>

text \<open>
  Claim C1 states that every stored normalized count is non-negative after the
  correction. With one plus-strand fragment over both mintrons and effective lengths
  1000 and 500, the normalized counts are 1 for intron 0 and 2 for intron 1; the
  correction for intron 1 stores \<open>min (1 - 2) 0 = - 1\<close> for intron 0, and the antisense
  pass stores \<open>- 2\<close> for it although no antisense fragment was seen. The source comments
  the assignment with "never give negative expression".
\<close>

theorem correction_stores_negative_count:
  "normalize_counts (overlap_info 1000) [(0, 1), (1, 1)] [] ([], []) = Inr ([(0, 1), (1, 2)], []) \<and>
   correct_double_counts (overlap_info 1000) ([(0, 1), (1, 2)], []) =
     ([(0, - 1), (1, 2)], [(0, - 2)]) \<and>
   execute (overlap_info 1000) False sense_pair =
     Inr \<lparr>intron_normalized_counts = [(0, - 1), (1, 2)],
          intron_normalized_antisense_counts = [(0, - 2)],
          transcript_intron_counts = [(''T0'', 0), (''T1'', 0)],
          transcript_intron_antisense_counts = [(''T0'', 0), (''T1'', 0)],
          intergenic_counts = []\<rparr>"
  by code_simp

text \<open>
  Claim C2 states that the primary intron's count after the correction is its count
  before minus \<open>c\<close>. With effective length 250 intron 0 has the normalized count 4 and
  intron 1 has \<open>c = 2\<close>; the code stores \<open>min (4 - 2) 0 = 0\<close>, not 2.
\<close>

theorem correction_clamps_positive_remainder:
  "normalize_counts (overlap_info 250) [(0, 1), (1, 1)] [] ([], []) = Inr ([(0, 4), (1, 2)], []) \<and>
   fst (correct_double_counts (overlap_info 250) ([(0, 4), (1, 2)], [])) = [(0, 0), (1, 2)] \<and>
   map_sum id intron_normalized_counts (execute (overlap_info 250) False sense_pair) =
     Inr [(0, 0), (1, 2)]"
  by code_simp

text \<open>
  Claim C3 states that the antisense pass subtracts the antisense count of the intron.
  With one fragment of each strand, intron 1 has the sense count 2 and the antisense
  count 1, and intron 0 the antisense count 1/2; the code stores
  \<open>min (1/2 - 2) 0 = - 3/2\<close> for intron 0, the sense count having been subtracted, where
  the claim has \<open>1/2 - 1\<close>.
\<close>

theorem antisense_correction_uses_sense_count:
  "normalize_counts (overlap_info 1000) [(0, 1), (1, 1)] [(0, 1), (1, 1)] ([], []) =
     Inr ([(0, 1), (1, 2)], [(0, 1 / 2), (1, 1)]) \<and>
   snd (correct_double_counts (overlap_info 1000)
          ([(0, 1), (1, 2)], [(0, 1 / 2), (1, 1)])) = [(0, - (3 / 2)), (1, 1)] \<and>
   map_sum id intron_normalized_antisense_counts
     (execute (overlap_info 1000) False (sense_pair @ antisense_pair)) =
     Inr [(0, - (3 / 2)), (1, 1)]"
  by code_simp

text \<open>
  Claim C5 states that an antisense entry exists exactly for the introns with a nonzero
  raw antisense count. With the minus-strand fragment alone both introns have the raw
  antisense count 1 and no raw sense count; the normalization loop runs over the raw
  sense table, which is empty, and stores no antisense entry.
\<close>

theorem antisense_only_intron_not_normalized:
  "map_sum id intron_read_counts
     (count_reads (overlap_info 1000) False antisense_pair initial_state) = Inr [] \<and>
   map_sum id intron_antisense_read_counts
     (count_reads (overlap_info 1000) False antisense_pair initial_state) =
     Inr [(0, 1), (1, 1)] \<and>
   normalize_counts (overlap_info 1000) [] [(0, 1), (1, 1)] ([], []) = Inr ([], []) \<and>
   map_sum id intron_normalized_antisense_counts
     (execute (overlap_info 1000) False antisense_pair) = Inr []"
  by code_simp

subsection \<open>What the corrector and the normalizer store in general\<close>

text \<open>
  Property X1. Whatever the counts are, the innermost correction loop leaves an entry for
  every primary intron it visits, and that entry is at most 0: \<open>min (_ - count) 0\<close> never
  keeps a positive remainder.
\<close>

theorem correction_stores_nonpositive:
  assumes "p \<in> set ps"
  shows "\<exists>v. map_of (remove_from_primaries c ps t) p = Some v \<and> v \<le> 0"
  using assms unfolding remove_from_primaries_def
proof (induction ps arbitrary: t rule: rev_induct)
  case Nil
  then show ?case by simp
next
  case (snoc q qs)
  show ?case
  proof (cases "p = q")
    case True
    then show ?thesis by (simp add: update_conv')
  next
    case False
    with snoc.prems have "p \<in> set qs" by simp
    from snoc.IH[OF this, of t] False show ?thesis by (simp add: update_conv')
  qed
qed

theorem correction_stores_nonpositive_witness:
  "(0 :: nat) \<in> set [0] \<and>
   remove_from_primaries 2 [0] [(0, 4), (1, 2)] = [(0, 0), (1, 2)] \<and>
   (\<exists>v. map_of (remove_from_primaries 2 [0 :: nat] [(0, 4), (1, 2)]) 0 = Some v \<and> v \<le> 0)"
proof -
  have m: "(0 :: nat) \<in> set [0]" by simp
  have run: "remove_from_primaries 2 [0] [(0, 4), (1, 2)] = [(0 :: nat, 0), (1, 2)]"
    by (simp add: remove_from_primaries_def counter_get_def)
  from correction_stores_nonpositive [OF m, of 2 "[(0, 4), (1, 2)]"] m run
  show ?thesis by blast
qed

lemma normalize_antisense_entries:
  "normalize_counts info items antisense_raw (n0, an0) = Inr (n, an) \<Longrightarrow>
   map_of an i =
     (if i \<in> fst ` set items \<and> counter_get antisense_raw i > 0
      then Some (of_nat (counter_get antisense_raw i) /
                 of_int (antisense_effective_length info i) * 1000)
      else map_of an0 i)"
proof (induction info items antisense_raw "(n0, an0)" arbitrary: n0 an0
       rule: normalize_counts.induct)
  case (1 info antisense_raw)
  then show ?case by simp
next
  case (2 info intron count items antisense_raw normalized antisense_normalized)
  then show ?case
    by (auto simp: fpk_def update_conv' split: sum.splits if_splits)
qed

lemma normalize_total:
  assumes "\<forall>(i, c) \<in> set items.
             effective_length info i \<noteq> 0 \<and> antisense_effective_length info i \<noteq> 0"
  shows "\<exists>n an. normalize_counts info items antisense_raw (n0, an0) = Inr (n, an)"
  using assms
proof (induction items arbitrary: n0 an0)
  case Nil
  then show ?case by simp
next
  case (Cons item items)
  obtain i c where item: "item = (i, c)" by (cases item)
  from Cons.prems item have len: "effective_length info i \<noteq> 0"
      "antisense_effective_length info i \<noteq> 0"
    and rest: "\<forall>(i, c) \<in> set items.
             effective_length info i \<noteq> 0 \<and> antisense_effective_length info i \<noteq> 0"
    by auto
  show ?case
    using Cons.IH[OF rest] len item by (simp add: fpk_def)
qed

text \<open>
  Property X2. When no intron of the raw sense table has an effective length of 0, the
  normalization succeeds, and the antisense table holds an entry exactly for the introns
  that are keys of the raw sense table and have a positive raw antisense count; the entry
  is the raw antisense count divided by the antisense effective length, times 1000.
\<close>

theorem antisense_entries_of_normalize:
  assumes "\<forall>(i, c) \<in> set items.
             effective_length info i \<noteq> 0 \<and> antisense_effective_length info i \<noteq> 0"
  shows "\<exists>n an. normalize_counts info items antisense_raw ([], []) = Inr (n, an) \<and>
           (\<forall>i. map_of an i =
              (if i \<in> fst ` set items \<and> counter_get antisense_raw i > 0
               then Some (of_nat (counter_get antisense_raw i) /
                          of_int (antisense_effective_length info i) * 1000)
               else None))"
proof -
  from normalize_total[OF assms, of antisense_raw "[]" "[]"] obtain n an where
    r: "normalize_counts info items antisense_raw ([], []) = Inr (n, an)" by blast
  from normalize_antisense_entries[OF r] r show ?thesis by simp
qed

theorem antisense_entries_of_normalize_witness:
  "normalize_counts (overlap_info 1000) [(0, 1), (1, 1)] [(1, 1), (2, 4)] ([], []) =
     Inr ([(0, 1), (1, 2)], [(1, 1)]) \<and>
   map_of [(1, 1 :: rat)] (0 :: nat) = None \<and>
   map_of [(1, 1 :: rat)] (1 :: nat) =
     Some (of_nat (counter_get [(1, 1), (2, 4 :: nat)] (1 :: nat)) /
           of_int (antisense_effective_length (overlap_info 1000) 1) * 1000) \<and>
   map_of [(1, 1 :: rat)] (2 :: nat) = None"
proof -
  have len: "\<forall>(i, c) \<in> set [(0, 1), (1, 1 :: nat)].
             effective_length (overlap_info 1000) i \<noteq> 0 \<and>
             antisense_effective_length (overlap_info 1000) i \<noteq> 0"
    by (simp add: overlap_info_def)
  have run: "normalize_counts (overlap_info 1000) [(0, 1), (1, 1)] [(1, 1), (2, 4)] ([], []) =
     Inr ([(0, 1), (1, 2)], [(1, 1)])"
    by code_simp
  from antisense_entries_of_normalize [OF len, of "[(1, 1), (2, 4)]"] run
  have a: "\<forall>i. map_of [(1, 1 :: rat)] i =
              (if i \<in> fst ` set [(0, 1), (1, 1 :: nat)] \<and>
                  counter_get [(1, 1), (2, 4 :: nat)] i > 0
               then Some (of_nat (counter_get [(1, 1), (2, 4 :: nat)] i) /
                          of_int (antisense_effective_length (overlap_info 1000) i) * 1000)
               else None)"
    by simp
  have "map_of [(1, 1 :: rat)] (1 :: nat) =
     Some (of_nat (counter_get [(1, 1), (2, 4 :: nat)] (1 :: nat)) /
           of_int (antisense_effective_length (overlap_info 1000) 1) * 1000)"
    using a[rule_format, of 1] by (simp add: counter_get_def)
  with run show ?thesis by simp
qed

end
